theory Spec2Isabelle
  imports Complex_Main "HOL-Library.Sublist"
begin

section \<open>JavaScript strings and numbers\<close>

text \<open>
  Strings are modelled as lists of characters with codes below 256 (Basic Latin and
  Latin-1 Supplement). \<open>includes\<close> is the test for a contiguous substring.
\<close>

fun str_includes :: "string \<Rightarrow> string \<Rightarrow> bool" where
  "str_includes [] p = (p = [])"
| "str_includes (c # cs) p = (prefix p (c # cs) \<or> str_includes cs p)"

text \<open>
  \<open>toLowerCase\<close>: the letters A to Z (65 to 90) and the capital letters of Latin-1
  (192 to 222, without the multiplication sign 215) move up by 32; no other character below
  256 changes.
\<close>

definition lower_char :: "char \<Rightarrow> char" where
  "lower_char c =
     (let n = (of_char c :: nat) in
      if (65 \<le> n \<and> n \<le> 90) \<or> (192 \<le> n \<and> n \<le> 222 \<and> n \<noteq> 215)
      then char_of (n + 32) else c)"

definition toLowerCase :: "string \<Rightarrow> string" where
  "toLowerCase s = map lower_char s"

text \<open>
  \<open>trim\<close> removes white space and line terminators; below 256 these are tab, line
  feed, vertical tab, form feed, carriage return, space and the no-break space (160).
\<close>

definition is_space :: "char \<Rightarrow> bool" where
  "is_space c = ((of_char c :: nat) \<in> {9, 10, 11, 12, 13, 32, 160})"

definition trim :: "string \<Rightarrow> string" where
  "trim s = rev (dropWhile is_space (rev (dropWhile is_space s)))"

text \<open>
  \<open>replace(/<[^>]*>/g, '')\<close>: a \<open><\<close> that is followed somewhere by a \<open>>\<close> is
  removed together with everything up to the first such \<open>>\<close>.
\<close>

function strip_tags :: "string \<Rightarrow> string" where
  "strip_tags [] = []"
| "strip_tags (c # cs) =
     (if c = CHR ''<'' \<and> CHR ''>'' \<in> set cs
      then strip_tags (tl (dropWhile (\<lambda>x. x \<noteq> CHR ''>'') cs))
      else c # strip_tags cs)"
  by pat_completeness auto
termination
proof (relation "measure length")
  fix c :: char and cs :: string
  have "length (tl (dropWhile (\<lambda>x. x \<noteq> CHR ''>'') cs)) \<le> length cs"
    using length_dropWhile_le[of "\<lambda>x. x \<noteq> CHR ''>''" cs] by simp
  then show "(tl (dropWhile (\<lambda>x. x \<noteq> CHR ''>'') cs), c # cs) \<in> measure length" by simp
qed simp_all

text \<open>A number in a template literal.\<close>

fun digit :: "nat \<Rightarrow> char" where
  "digit n = ''0123456789'' ! (n mod 10)"

function decimal :: "nat \<Rightarrow> string" where
  "decimal n = (if n < 10 then [digit n] else decimal (n div 10) @ [digit n])"
  by pat_completeness auto
termination
  by (relation "measure id") auto

declare decimal.simps [simp del]

text \<open>
  Doubles. The confidence values are sums of the literals 0.1, 0.15, 0.2 and 0.3, starting
  from 0; every double that arises this way is a multiple of \<open>2 ^ -56\<close> below 2, and is
  represented by the number of \<open>2 ^ -56\<close> it holds. The sum of two doubles is their exact
  sum rounded to 53 significant bits, to the nearest value and, halfway between two, to the
  one whose last bit is zero, as IEEE 754 defines it.
\<close>

type_synonym double = int

function bit_length :: "int \<Rightarrow> nat" where
  "bit_length n = (if n \<le> 0 then 0 else Suc (bit_length (n div 2)))"
  by pat_completeness auto
termination
  by (relation "measure nat") auto

declare bit_length.simps [simp del]

definition round_to_53_bits :: "int \<Rightarrow> double" where
  "round_to_53_bits v =
     (if bit_length v \<le> 53 then v
      else (let q = 2 ^ (bit_length v - 53); k = v div q; r = v mod q in
            if 2 * r < q then k * q
            else if q < 2 * r then (k + 1) * q
            else if even k then k * q else (k + 1) * q))"

definition double_add :: "double \<Rightarrow> double \<Rightarrow> double" where
  "double_add a b = round_to_53_bits (a + b)"

definition double_value :: "double \<Rightarrow> real" where
  "double_value d = real_of_int d / 2 ^ 56"

text \<open>The literals \<open>0.1\<close>, \<open>0.15\<close>, \<open>0.2\<close>, \<open>0.3\<close> and \<open>1\<close> as doubles.\<close>

definition double_0_1 :: double where
  "double_0_1 = 7205759403792794"

definition double_0_15 :: double where
  "double_0_15 = 10808639105689190"

definition double_0_2 :: double where
  "double_0_2 = 14411518807585588"

definition double_0_3 :: double where
  "double_0_3 = 21617278211378380"

definition double_1 :: double where
  "double_1 = 2 ^ 56"

section \<open>Execution results (part1-http-execution)\<close>

text \<open>
  The result object built by \<open>HttpExecutor.executeRequest\<close>, \<open>buildEscalationResult\<close>
  and \<open>buildFailureResult\<close>. The fields \<open>headers\<close>, \<open>contentLength\<close>,
  \<open>executionTime\<close>, \<open>proxyUsed\<close> and \<open>cost\<close> carry no control flow and are left out.
  A field that the source leaves undefined is \<open>None\<close>.
\<close>

record exec_result =
  success :: bool
  url :: string
  statusCode :: nat
  body :: string
  retryCount :: nat
  escalationNeeded :: bool
  escalationReason :: "string option"
  error :: "string option"

text \<open>The outcome of awaiting a call: a value, or a thrown error with its message.\<close>

datatype 'a completion = Returns 'a | Throws string

section \<open>Escalation handler\<close>

type_synonym level = string

record handler_config =
  levels :: "level list"
  autoEscalate :: bool
  escalationDelay :: nat

text \<open>
  The constructor: \<open>levels\<close> is fixed, \<open>autoEscalate\<close> is \<open>config.autoEscalate !== false\<close>,
  \<open>escalationDelay\<close> is \<open>config.escalationDelay || 1000\<close>.
\<close>

definition default_levels :: "level list" where
  "default_levels = [''http'', ''browser-light'', ''browser-advanced'']"

definition EscalationHandler :: "bool option \<Rightarrow> nat option \<Rightarrow> handler_config" where
  "EscalationHandler auto dly =
     \<lparr> levels = default_levels,
       autoEscalate = (auto \<noteq> Some False),
       escalationDelay = (case dly of None \<Rightarrow> 1000 | Some d \<Rightarrow> if d = 0 then 1000 else d) \<rparr>"

record options =
  startLevel :: "level option"

text \<open>
  An executor is a function, an object with a \<open>fetch\<close> method, an object with an
  \<open>execute\<close> method (and no \<open>fetch\<close>), or some other object.
\<close>

datatype executor =
    ExFunction "string \<Rightarrow> options \<Rightarrow> exec_result completion"
  | ExFetch "string \<Rightarrow> options \<Rightarrow> exec_result completion"
  | ExExecute "string \<Rightarrow> options \<Rightarrow> exec_result completion"
  | ExInvalid

type_synonym executors = "level \<rightharpoonup> executor"

text \<open>Events passed to \<open>this.emit\<close>, in emission order.\<close>

datatype event =
    ExecutionStart string level
  | Escalation string level level "string option"

text \<open>The object pushed on \<open>escalationHistory\<close>: url, fromLevel, reason, timestamp.\<close>

record history_entry =
  h_url :: string
  fromLevel :: level
  reason :: "string option"
  timestamp :: nat

record handler_state =
  escalationHistory :: "history_entry list"
  emitted :: "event list"

text \<open>\<open>{...result, executionLevel, escalationCount}\<close>\<close>

record final_result =
  result :: exec_result
  executionLevel :: level
  escalationCount :: nat

text \<open>
  What the promise of \<open>executeWithEscalation\<close> settles to: a result object, \<open>undefined\<close>
  (the loop was left without a \<open>return\<close>), or a rejection.
\<close>

datatype outcome = Final final_result | Undefined | Thrown string

fun indexOf :: "'a list \<Rightarrow> 'a \<Rightarrow> int" where
  "indexOf [] x = - 1"
| "indexOf (y # ys) x =
     (if y = x then 0 else (let i = indexOf ys x in if i < 0 then - 1 else i + 1))"

definition getNextLevel :: "handler_config \<Rightarrow> level \<Rightarrow> level option" where
  "getNextLevel cfg current =
     (let idx = indexOf (levels cfg) current in
      if idx < int (length (levels cfg)) - 1
      then Some (levels cfg ! nat (idx + 1)) else None)"

definition executeAtLevel :: "executor \<Rightarrow> string \<Rightarrow> options \<Rightarrow> exec_result completion" where
  "executeAtLevel ex u opts =
     (case ex of
        ExFunction f \<Rightarrow> f u opts
      | ExFetch f \<Rightarrow> f u opts
      | ExExecute f \<Rightarrow> f u opts
      | ExInvalid \<Rightarrow> Throws ''Invalid executor'')"

text \<open>
  One pass through the body of the \<open>while\<close> loop. An executor is taken to return a
  result object when it returns; the wait of \<open>escalationDelay\<close> changes no state. \<open>Continue\<close> is the \<open>continue\<close>
  statement (with the new \<open>currentLevel\<close>; \<open>escalationCount\<close> is incremented by the
  loop), \<open>Done\<close> is \<open>break\<close>, \<open>return\<close> or \<open>throw\<close>. A level name is truthy when
  it is not the empty string. \<open>clock k\<close> is the time read by \<open>new Date()\<close> in the pass
  with \<open>escalationCount = k\<close>.
\<close>

datatype pass = Continue level handler_state | Done outcome handler_state

definition emit :: "event \<Rightarrow> handler_state \<Rightarrow> handler_state" where
  "emit e s = s\<lparr>emitted := emitted s @ [e]\<rparr>"

definition run_pass ::
  "handler_config \<Rightarrow> (nat \<Rightarrow> nat) \<Rightarrow> string \<Rightarrow> executors \<Rightarrow> options \<Rightarrow> level \<Rightarrow> nat
     \<Rightarrow> handler_state \<Rightarrow> pass" where
  "run_pass cfg clock u exs opts currentLevel cnt s =
     (case exs currentLevel of
        None \<Rightarrow> Done Undefined s
      | Some ex \<Rightarrow>
          (let s1 = emit (ExecutionStart u currentLevel) s in
           case executeAtLevel ex u opts of
             Returns r \<Rightarrow>
               (let fin = Done (Final \<lparr> result = r, executionLevel = currentLevel,
                                        escalationCount = cnt \<rparr>) s1 in
                if escalationNeeded r \<and> autoEscalate cfg then
                  (case getNextLevel cfg currentLevel of
                     Some nextLevel \<Rightarrow>
                       if nextLevel \<noteq> [] then
                         (let s2 = emit (Escalation u currentLevel nextLevel (escalationReason r)) s1;
                              s3 = s2\<lparr>escalationHistory := escalationHistory s2 @
                                      [\<lparr> h_url = u, fromLevel = currentLevel,
                                         reason = escalationReason r,
                                         timestamp = clock cnt \<rparr>]\<rparr>
                          in Continue nextLevel s3)
                       else fin
                   | None \<Rightarrow> fin)
                else fin)
           | Throws e \<Rightarrow>
               (case getNextLevel cfg currentLevel of
                  Some nextLevel \<Rightarrow>
                    if nextLevel \<noteq> [] \<and> autoEscalate cfg then Continue nextLevel s1
                    else Done (Thrown e) s1
                | None \<Rightarrow> Done (Thrown e) s1)))"

function loop ::
  "handler_config \<Rightarrow> (nat \<Rightarrow> nat) \<Rightarrow> string \<Rightarrow> executors \<Rightarrow> options \<Rightarrow> level \<Rightarrow> nat
     \<Rightarrow> handler_state \<Rightarrow> outcome \<times> handler_state" where
  "loop cfg clock u exs opts currentLevel cnt s =
     (if cnt < length (levels cfg) then
        (case run_pass cfg clock u exs opts currentLevel cnt s of
           Continue nextLevel s' \<Rightarrow> loop cfg clock u exs opts nextLevel (Suc cnt) s'
         | Done out s' \<Rightarrow> (out, s'))
      else (Undefined, s))"
  by pat_completeness auto
termination
  by (relation "measure (\<lambda>(cfg, clock, u, exs, opts, currentLevel, cnt, s).
                  length (levels cfg) - cnt)") auto

declare loop.simps [simp del]

text \<open>\<open>options.startLevel || 'http'\<close>\<close>

definition start_level :: "options \<Rightarrow> level" where
  "start_level opts =
     (case startLevel opts of
        None \<Rightarrow> ''http''
      | Some l \<Rightarrow> if l = [] then ''http'' else l)"

definition executeWithEscalation ::
  "handler_config \<Rightarrow> (nat \<Rightarrow> nat) \<Rightarrow> string \<Rightarrow> executors \<Rightarrow> options \<Rightarrow> handler_state
     \<Rightarrow> outcome \<times> handler_state" where
  "executeWithEscalation cfg clock u exs opts s =
     loop cfg clock u exs opts (start_level opts) 0 s"

text \<open>The tiers at which execution was attempted: one \<open>execution-start\<close> event each.\<close>

fun attempted :: "event list \<Rightarrow> level list" where
  "attempted [] = []"
| "attempted (ExecutionStart u l # es) = l # attempted es"
| "attempted (Escalation u f t r # es) = attempted es"

text \<open>
  What one run adds to the emitted events and to \<open>escalationHistory\<close>: the state after
  the run minus the state before it.
\<close>

definition new_events :: "handler_state \<Rightarrow> handler_state \<Rightarrow> event list" where
  "new_events s s' = drop (length (emitted s)) (emitted s')"

definition new_history :: "handler_state \<Rightarrow> handler_state \<Rightarrow> history_entry list" where
  "new_history s s' = drop (length (escalationHistory s)) (escalationHistory s')"

text \<open>The \<open>escalation\<close> events of a run: url, source tier and reason of each.\<close>

fun escalations :: "event list \<Rightarrow> (string \<times> level \<times> string option) list" where
  "escalations [] = []"
| "escalations (ExecutionStart u l # es) = escalations es"
| "escalations (Escalation u f t r # es) = (u, f, r) # escalations es"

text \<open>The url, source tier and reason of a history entry.\<close>

abbreviation (input) proj :: "history_entry \<Rightarrow> string \<times> level \<times> string option" where
  "proj h \<equiv> (h_url h, fromLevel h, reason h)"

text \<open>What the executor registered for a level returns for this call, if it returns.\<close>

definition result_at :: "executors \<Rightarrow> string \<Rightarrow> options \<Rightarrow> level \<Rightarrow> exec_result option" where
  "result_at exs u opts l =
     (case exs l of
        None \<Rightarrow> None
      | Some ex \<Rightarrow> (case executeAtLevel ex u opts of Returns r \<Rightarrow> Some r | Throws e \<Rightarrow> None))"

text \<open>
  The rule of the handler, stated on its own. After an attempt at a tier the handler moves
  to the next level when auto-escalation is enabled, the executor returned a result that
  signals \<open>escalationNeeded\<close> or threw, and a next level is configured.
\<close>

definition advances :: "handler_config \<Rightarrow> executors \<Rightarrow> string \<Rightarrow> options \<Rightarrow> level \<Rightarrow> level option" where
  "advances cfg exs u opts l =
     (case exs l of
        None \<Rightarrow> None
      | Some ex \<Rightarrow>
          if autoEscalate cfg \<and>
             (case executeAtLevel ex u opts of Returns r \<Rightarrow> escalationNeeded r | Throws e \<Rightarrow> True)
          then (case getNextLevel cfg l of
                  Some nextLevel \<Rightarrow> if nextLevel \<noteq> [] then Some nextLevel else None
                | None \<Rightarrow> None)
          else None)"

text \<open>
  The attempts of a run from a tier: the tier is attempted when fewer escalations than
  there are levels have been made and the tier has an executor, and the run goes on while
  the handler moves on. Each attempt is given with the number of escalations before it.
\<close>

function attempts ::
  "handler_config \<Rightarrow> executors \<Rightarrow> string \<Rightarrow> options \<Rightarrow> level \<Rightarrow> nat \<Rightarrow> (nat \<times> level) list" where
  "attempts cfg exs u opts l k =
     (if k < length (levels cfg) \<and> exs l \<noteq> None
      then (k, l) # (case advances cfg exs u opts l of
                       Some nextLevel \<Rightarrow> attempts cfg exs u opts nextLevel (Suc k)
                     | None \<Rightarrow> [])
      else [])"
  by pat_completeness auto
termination
  by (relation "measure (\<lambda>(cfg, exs, u, opts, l, k). length (levels cfg) - k)") auto

declare attempts.simps [simp del]

text \<open>
  The history entries an attempt leaves: one, with the url, the tier, the reason of the
  result and the time, when the result signals \<open>escalationNeeded\<close> and the handler moves
  on; none otherwise.
\<close>

definition recorded ::
  "handler_config \<Rightarrow> (nat \<Rightarrow> nat) \<Rightarrow> executors \<Rightarrow> string \<Rightarrow> options \<Rightarrow> nat \<times> level
     \<Rightarrow> history_entry list" where
  "recorded cfg clock exs u opts a =
     (case result_at exs u opts (snd a) of
        Some r \<Rightarrow>
          if escalationNeeded r \<and> advances cfg exs u opts (snd a) \<noteq> None
          then [\<lparr> h_url = u, fromLevel = snd a, reason = escalationReason r,
                  timestamp = clock (fst a) \<rparr>]
          else []
      | None \<Rightarrow> [])"

section \<open>HTTP executor\<close>

text \<open>
  \<open>response.data\<close> is a string, or another value, given by its \<open>JSON.stringify\<close> text.
  The headers are the entries of the headers object.
\<close>

datatype resp_data = StrData string | OtherData string

record response =
  status :: nat
  headers :: "(string \<times> string) list"
  data :: resp_data

text \<open>The object \<open>{ needed, reason }\<close> of \<open>checkForEscalationSignals\<close>.\<close>

record escalation_check =
  needed :: bool
  check_reason :: "string option"

definition checkForEscalationSignals :: "response \<Rightarrow> escalation_check" where
  "checkForEscalationSignals resp =
     (let b = (case data resp of StrData t \<Rightarrow> t | OtherData j \<Rightarrow> []) in
      if str_includes b ''Please enable JavaScript'' \<or> str_includes b ''JavaScript is required''
      then \<lparr> needed = True, check_reason = Some ''JavaScript required'' \<rparr>
      else if (status resp = 403 \<or> status resp = 503) \<and>
              (str_includes b ''challenge'' \<or> str_includes b ''captcha'')
      then \<lparr> needed = True, check_reason = Some ''Challenge not resolved'' \<rparr>
      else if length b < 1000 \<and> length (trim (strip_tags b)) < 100
      then \<lparr> needed = True, check_reason = Some ''Minimal content - likely SPA'' \<rparr>
      else \<lparr> needed = False, check_reason = None \<rparr>)"

text \<open>\<open>shouldEscalate\<close>, on the message of the error.\<close>

definition shouldEscalate :: "string \<Rightarrow> bool" where
  "shouldEscalate msg =
     (let m = toLowerCase msg in
      str_includes m ''403'' \<or> str_includes m ''forbidden'' \<or>
      str_includes m ''blocked'' \<or> str_includes m ''challenge'')"

text \<open>The two fields of \<open>this.config\<close> that \<open>fetch\<close> reads.\<close>

record http_config =
  retries :: nat
  retryDelay :: nat

text \<open>The constructor defaults: \<open>retries = 3\<close>, \<open>retryDelay = 1000\<close>.\<close>

definition default_http_config :: http_config where
  "default_http_config = \<lparr> retries = 3, retryDelay = 1000 \<rparr>"

definition executeRequest :: "string \<Rightarrow> response \<Rightarrow> nat \<Rightarrow> exec_result" where
  "executeRequest u resp rc =
     (let escalationCheck = checkForEscalationSignals resp in
      \<lparr> success = True, url = u, statusCode = status resp,
        body = (case data resp of StrData t \<Rightarrow> t | OtherData j \<Rightarrow> j),
        retryCount = rc,
        escalationNeeded = needed escalationCheck,
        escalationReason = check_reason escalationCheck,
        error = None \<rparr>)"

definition buildEscalationResult :: "string \<Rightarrow> nat \<Rightarrow> string \<Rightarrow> exec_result" where
  "buildEscalationResult u rc msg =
     \<lparr> success = False, url = u, statusCode = 0, body = [], retryCount = rc,
       escalationNeeded = True,
       escalationReason = Some (''Web Unlocker could not handle - '' @ msg),
       error = Some msg \<rparr>"

definition buildFailureResult :: "string \<Rightarrow> nat \<Rightarrow> string option \<Rightarrow> exec_result" where
  "buildFailureResult u rc lastError =
     \<lparr> success = False, url = u, statusCode = 0, body = [], retryCount = rc,
       escalationNeeded = False, escalationReason = None, error = lastError \<rparr>"

text \<open>
  The \<open>for\<close> loop of \<open>fetch\<close>, from a given \<open>attempt\<close> with the current
  \<open>retryCount\<close> and \<open>lastError\<close>. \<open>net attempt\<close> is what \<open>await axios(axiosConfig)\<close>
  does in that attempt: it returns a response or throws. \<open>delays\<close> collects the arguments
  of \<open>this.delay\<close>, one for each wait before a retry.
\<close>

function fetch_from ::
  "http_config \<Rightarrow> (nat \<Rightarrow> response completion) \<Rightarrow> string \<Rightarrow> nat \<Rightarrow> nat \<Rightarrow> string option
     \<Rightarrow> nat list \<Rightarrow> exec_result \<times> nat list" where
  "fetch_from cfg net u attempt rc lastError delays =
     (if attempt \<le> retries cfg then
        (case net attempt of
           Returns resp \<Rightarrow> (executeRequest u resp rc, delays)
         | Throws msg \<Rightarrow>
             if attempt < retries cfg then
               if shouldEscalate msg then (buildEscalationResult u (rc + 1) msg, delays)
               else fetch_from cfg net u (attempt + 1) (rc + 1) (Some msg)
                      (delays @ [retryDelay cfg * (attempt + 1)])
             else fetch_from cfg net u (attempt + 1) (rc + 1) (Some msg) delays)
      else (buildFailureResult u rc lastError, delays))"
  by pat_completeness auto
termination
  by (relation "measure (\<lambda>(cfg, net, u, attempt, rc, lastError, delays).
                  retries cfg + 1 - attempt)") auto

declare fetch_from.simps [simp del]

definition fetch ::
  "http_config \<Rightarrow> (nat \<Rightarrow> response completion) \<Rightarrow> string \<Rightarrow> exec_result \<times> nat list" where
  "fetch cfg net u = fetch_from cfg net u 0 0 None []"

text \<open>An \<open>HttpExecutor\<close> as an executor of the escalation handler: \<open>fetch\<close> never throws.\<close>

definition HttpExecutor :: "http_config \<Rightarrow> (nat \<Rightarrow> response completion) \<Rightarrow> executor" where
  "HttpExecutor cfg net = ExFetch (\<lambda>u opts. Returns (fst (fetch cfg net u)))"

text \<open>The waits of \<open>k\<close> same-tier retries: \<open>retryDelay * (attempt + 1)\<close> each.\<close>

definition retry_delays :: "http_config \<Rightarrow> nat \<Rightarrow> nat list" where
  "retry_delays cfg k = map (\<lambda>i. retryDelay cfg * (i + 1)) [0..<k]"

section \<open>Environment analyzer\<close>

text \<open>The \<open>signals\<close> object; \<open>confidence\<close> is a double.\<close>

record signals =
  requiresJavaScript :: bool
  hasAntiBot :: bool
  hasDynamicContent :: bool
  confidence :: double

definition jsFrameworkPatterns :: "string list" where
  "jsFrameworkPatterns =
     [''react'', ''vue'', ''angular'', ''svelte'', ''next.js'', ''nuxt'',
      ''__NEXT_DATA__'', ''__NUXT__'', ''ng-app'', ''data-reactroot'']"

definition antiBotPatterns :: "string list" where
  "antiBotPatterns =
     [''cloudflare'', ''incapsula'', ''perimeterx'', ''datadome'',
      ''kasada'', ''akamai'', ''cf-browser-verification'',
      ''challenge-platform'', ''_cf_chl'']"

definition dynamicContentPatterns :: "string list" where
  "dynamicContentPatterns =
     [''infinite-scroll'', ''load-more'', ''lazy-load'',
      ''data-src'', ''data-lazy'', ''intersection-observer'']"

text \<open>\<open>headers[name]\<close> is truthy: the header is present and not the empty string.\<close>

definition header_set :: "(string \<times> string) list \<Rightarrow> string \<Rightarrow> bool" where
  "header_set hs name = (case map_of hs name of None \<Rightarrow> False | Some v \<Rightarrow> v \<noteq> [])"

text \<open>
  \<open>JSON.stringify\<close> of the headers object, whose values are strings: quoted keys and
  values. In a string the quote and the backslash are preceded by a backslash; the control
  characters 8, 9, 10, 12 and 13 are written as a backslash and the letter b, t, n, f or r;
  every other character below 32 is written as a backslash, the letter u, two zeros and two
  lower-case hexadecimal digits.
\<close>

definition hex_digit :: "nat \<Rightarrow> char" where
  "hex_digit n = ''0123456789abcdef'' ! (n mod 16)"

definition json_char :: "char \<Rightarrow> string" where
  "json_char c =
     (let n = (of_char c :: nat) in
      if n = 34 \<or> n = 92 then [CHR 0x5C, c]
      else if n = 8 then [CHR 0x5C, CHR ''b'']
      else if n = 9 then [CHR 0x5C, CHR ''t'']
      else if n = 10 then [CHR 0x5C, CHR ''n'']
      else if n = 12 then [CHR 0x5C, CHR ''f'']
      else if n = 13 then [CHR 0x5C, CHR ''r'']
      else if n < 32
        then [CHR 0x5C, CHR ''u'', CHR ''0'', CHR ''0'', hex_digit (n div 16), hex_digit n]
      else [c])"

definition json_string :: "string \<Rightarrow> string" where
  "json_string t = [CHR 0x22] @ concat (map json_char t) @ [CHR 0x22]"

fun json_members :: "(string \<times> string) list \<Rightarrow> string" where
  "json_members [] = []"
| "json_members [(k, v)] = json_string k @ '':'' @ json_string v"
| "json_members ((k, v) # hs) = json_string k @ '':'' @ json_string v @ '','' @ json_members hs"

definition JSON_stringify :: "(string \<times> string) list \<Rightarrow> string" where
  "JSON_stringify hs = ''{'' @ json_members hs @ ''}''"

text \<open>The conditions of the heuristics, as \<open>analyzeHeaders\<close> and \<open>analyzeContent\<close> test them.\<close>

definition cloudflare_header :: "(string \<times> string) list \<Rightarrow> bool" where
  "cloudflare_header hs = (header_set hs ''cf-ray'' \<or> header_set hs ''cf-cache-status'')"

definition service_header :: "(string \<times> string) list \<Rightarrow> bool" where
  "service_header hs =
     (let headerString = toLowerCase (JSON_stringify hs) in
      str_includes headerString ''incapsula'' \<or>
      str_includes headerString ''perimeterx'' \<or>
      str_includes headerString ''datadome'')"

text \<open>
  \<open>for (const pattern of patterns) if (lowerHtml.includes(pattern.toLowerCase())) { ...; break }\<close>
\<close>

definition any_pattern :: "string list \<Rightarrow> string \<Rightarrow> bool" where
  "any_pattern patterns html =
     list_ex (\<lambda>pattern. str_includes (toLowerCase html) (toLowerCase pattern)) patterns"

definition minimal_content :: "string \<Rightarrow> bool" where
  "minimal_content html = (length html < 5000 \<and> length (trim (strip_tags html)) < 500)"

definition analyzeHeaders :: "(string \<times> string) list \<Rightarrow> signals \<Rightarrow> signals" where
  "analyzeHeaders hs sg =
     (let sg1 = (if cloudflare_header hs
                 then sg\<lparr>hasAntiBot := True,
                        confidence := double_add (confidence sg) double_0_2\<rparr>
                 else sg)
      in if service_header hs
         then sg1\<lparr>hasAntiBot := True, confidence := double_add (confidence sg1) double_0_3\<rparr>
         else sg1)"

definition analyzeContent :: "string \<Rightarrow> signals \<Rightarrow> signals" where
  "analyzeContent html sg =
     (let sg1 = (if any_pattern jsFrameworkPatterns html
                 then sg\<lparr>requiresJavaScript := True,
                        confidence := double_add (confidence sg) double_0_15\<rparr>
                 else sg);
          sg2 = (if any_pattern antiBotPatterns html
                 then sg1\<lparr>hasAntiBot := True,
                         confidence := double_add (confidence sg1) double_0_2\<rparr>
                 else sg1);
          sg3 = (if any_pattern dynamicContentPatterns html
                 then sg2\<lparr>hasDynamicContent := True,
                         confidence := double_add (confidence sg2) double_0_1\<rparr>
                 else sg2)
      in if minimal_content html
         then sg3\<lparr>requiresJavaScript := True,
                  confidence := double_add (confidence sg3) double_0_3\<rparr>
         else sg3)"

definition calculateComplexity :: "signals \<Rightarrow> string" where
  "calculateComplexity sg =
     (if hasAntiBot sg then ''high''
      else if requiresJavaScript sg \<or> hasDynamicContent sg then ''medium''
      else ''low'')"

definition getRecommendedExecution :: "string \<Rightarrow> signals \<Rightarrow> level" where
  "getRecommendedExecution complexity sg =
     (if complexity = ''high'' then ''browser-advanced''
      else if complexity = ''medium''
      then (if hasAntiBot sg then ''browser-advanced'' else ''browser-light'')
      else ''http'')"

definition generateDetails :: "signals \<Rightarrow> string list" where
  "generateDetails sg =
     (let details =
        (if requiresJavaScript sg then [''JavaScript rendering required''] else []) @
        (if hasAntiBot sg then [''Anti-bot protection detected''] else []) @
        (if hasDynamicContent sg then [''Dynamic content loading detected''] else [])
      in if details = [] then [''Simple static page detected''] else details)"

text \<open>
  The object \<open>analyze\<close> resolves to, without \<open>analyzedAt\<close> and \<open>duration\<close>. Its
  \<open>confidence\<close> field is \<open>Math.min(signals.confidence, 1)\<close>.
\<close>

record analysis =
  analysis_url :: string
  analysis_signals :: signals
  complexity :: string
  recommendedExecution :: level
  analysis_confidence :: double
  analysis_error :: "string option"
  details :: "string list"

definition initial_signals :: signals where
  "initial_signals =
     \<lparr> requiresJavaScript = False, hasAntiBot = False, hasDynamicContent = False,
       confidence = 0 \<rparr>"

text \<open>
  \<open>got\<close> is what \<open>await axios.get(url, ...)\<close> does: with \<open>validateStatus: () => true\<close>
  every response is returned, and only a failure to fetch throws.
\<close>

definition analyze :: "string \<Rightarrow> response completion \<Rightarrow> analysis" where
  "analyze u got =
     (case got of
        Returns resp \<Rightarrow>
          (let sg1 = analyzeHeaders (headers resp) initial_signals;
               sg2 = (case data resp of StrData html \<Rightarrow> analyzeContent html sg1
                      | OtherData j \<Rightarrow> sg1);
               cx = calculateComplexity sg2
           in \<lparr> analysis_url = u, analysis_signals = sg2, complexity = cx,
                recommendedExecution = getRecommendedExecution cx sg2,
                analysis_confidence = min (confidence sg2) double_1,
                analysis_error = None, details = generateDetails sg2 \<rparr>)
      | Throws msg \<Rightarrow>
          \<lparr> analysis_url = u, analysis_signals = initial_signals, complexity = ''high'',
            recommendedExecution = ''browser-advanced'', analysis_confidence = double_0_3,
            analysis_error = Some msg,
            details = [''Analysis failed - recommending browser execution for safety''] \<rparr>)"

text \<open>
  The text body of a response, scanned by \<open>analyzeContent\<close>; a body that is not a string is
  not scanned.
\<close>

definition text_body :: "response \<Rightarrow> string option" where
  "text_body resp = (case data resp of StrData html \<Rightarrow> Some html | OtherData j \<Rightarrow> None)"

definition body_hit :: "(string \<Rightarrow> bool) \<Rightarrow> response \<Rightarrow> bool" where
  "body_hit h resp = (case text_body resp of None \<Rightarrow> False | Some html \<Rightarrow> h html)"

text \<open>
  The tokens the analyzer looks for: in the headers a Cloudflare header, or one of the three
  service names anywhere in the serialised headers; in the text body one of
  \<open>antiBotPatterns\<close>, in any letter case.
\<close>

definition has_protection_token :: "response \<Rightarrow> bool" where
  "has_protection_token resp =
     (cloudflare_header (headers resp) \<or> service_header (headers resp) \<or>
      body_hit (any_pattern antiBotPatterns) resp)"

text \<open>
  A response that names a protection service: one of \<open>antiBotPatterns\<close>, in any letter
  case, anywhere in the serialised headers or in the text body.
\<close>

definition names_protection_service :: "response \<Rightarrow> bool" where
  "names_protection_service resp =
     (any_pattern antiBotPatterns (JSON_stringify (headers resp)) \<or>
      body_hit (any_pattern antiBotPatterns) resp)"

text \<open>The sum of the fixed increments of the heuristics that a response triggers.\<close>

definition weight :: "bool \<Rightarrow> real \<Rightarrow> real" where
  "weight hit w = (if hit then w else 0)"

definition triggered_increments :: "response \<Rightarrow> real" where
  "triggered_increments resp =
     weight (cloudflare_header (headers resp)) (2/10) +
     weight (service_header (headers resp)) (3/10) +
     weight (body_hit (any_pattern jsFrameworkPatterns) resp) (15/100) +
     weight (body_hit (any_pattern antiBotPatterns) resp) (2/10) +
     weight (body_hit (any_pattern dynamicContentPatterns) resp) (1/10) +
     weight (body_hit minimal_content resp) (3/10)"

text \<open>
  The same increments as doubles, in the order in which the heuristics run, and their sum as
  the code forms it: added one after the other, starting from 0.
\<close>

definition pick :: "bool \<Rightarrow> double \<Rightarrow> double list" where
  "pick hit d = (if hit then [d] else [])"

definition triggered_doubles :: "response \<Rightarrow> double list" where
  "triggered_doubles resp =
     pick (cloudflare_header (headers resp)) double_0_2 @
     pick (service_header (headers resp)) double_0_3 @
     pick (body_hit (any_pattern jsFrameworkPatterns) resp) double_0_15 @
     pick (body_hit (any_pattern antiBotPatterns) resp) double_0_2 @
     pick (body_hit (any_pattern dynamicContentPatterns) resp) double_0_1 @
     pick (body_hit minimal_content resp) double_0_3"

definition double_sum :: "double list \<Rightarrow> double" where
  "double_sum ds = foldl double_add 0 ds"

section \<open>Environment monitor: drift detection\<close>

text \<open>
  The check object built by \<open>checkTarget\<close>. \<open>selectorMatches\<close> is an object keyed by
  selector; it is modelled by its \<open>Object.entries\<close>, whose keys are distinct. The fields
  \<open>executionLevel\<close>, \<open>contentLength\<close>, \<open>geoResults\<close> and \<open>issues\<close> are not read by
  \<open>detectChanges\<close> and are left out. Times are in milliseconds.
\<close>

record check =
  check_url :: string
  check_timestamp :: nat
  check_status :: string
  responseTime :: nat
  selectorMatches :: "(string \<times> nat) list"

text \<open>
  The change record pushed by \<open>detectChanges\<close>; \<open>before\<close> and \<open>after\<close> are match
  counts or response times.
\<close>

record change =
  change_url :: string
  change_timestamp :: nat
  changeType :: string
  change_severity :: string
  description :: string
  before :: nat
  after :: nat

text \<open>\<open>this.baselines\<close>, keyed by url.\<close>

record monitor_state =
  baselines :: "string \<rightharpoonup> check"

text \<open>\<open>baseline.selectorMatches[selector] || 0\<close>\<close>

definition baselineCount :: "check \<Rightarrow> string \<Rightarrow> nat" where
  "baselineCount baseline selector =
     (case map_of (selectorMatches baseline) selector of None \<Rightarrow> 0 | Some n \<Rightarrow> n)"

text \<open>The template literal \<open>`Selector "${selector}" no longer found`\<close>.\<close>

definition selector_gone :: "string \<Rightarrow> string" where
  "selector_gone selector =
     ''Selector '' @ [CHR 0x22] @ selector @ [CHR 0x22] @ '' no longer found''"

text \<open>The loop over \<open>Object.entries(current.selectorMatches)\<close>.\<close>

fun structural_changes :: "string \<Rightarrow> nat \<Rightarrow> check \<Rightarrow> (string \<times> nat) list \<Rightarrow> change list" where
  "structural_changes u now baseline [] = []"
| "structural_changes u now baseline ((selector, count) # entries) =
     (if count = 0 \<and> baselineCount baseline selector > 0
      then \<lparr> change_url = u, change_timestamp = now, changeType = ''structure'',
             change_severity = ''warning'', description = selector_gone selector,
             before = baselineCount baseline selector, after = count \<rparr>
           # structural_changes u now baseline entries
      else structural_changes u now baseline entries)"

definition performance_changes :: "string \<Rightarrow> nat \<Rightarrow> check \<Rightarrow> check \<Rightarrow> change list" where
  "performance_changes u now baseline current =
     (if responseTime current > responseTime baseline * 2
      then [\<lparr> change_url = u, change_timestamp = now, changeType = ''performance'',
              change_severity = ''warning'', description = ''Response time doubled'',
              before = responseTime baseline, after = responseTime current \<rparr>]
      else [])"

text \<open>\<open>now\<close> is the time read by \<open>new Date()\<close> during the call.\<close>

definition detectChanges ::
  "string \<Rightarrow> check \<Rightarrow> nat \<Rightarrow> monitor_state \<Rightarrow> change list \<times> monitor_state" where
  "detectChanges u current now s =
     (case baselines s u of
        None \<Rightarrow> ([], s\<lparr>baselines := (baselines s)(u \<mapsto> current)\<rparr>)
      | Some baseline \<Rightarrow>
          (structural_changes u now baseline (selectorMatches current)
             @ performance_changes u now baseline current, s))"

text \<open>The structural records that name a given selector, and the performance records.\<close>

definition structure_records_for :: "string \<Rightarrow> change list \<Rightarrow> change list" where
  "structure_records_for selector changes =
     filter (\<lambda>c. changeType c = ''structure'' \<and> description c = selector_gone selector) changes"

definition performance_records :: "change list \<Rightarrow> change list" where
  "performance_records changes = filter (\<lambda>c. changeType c = ''performance'') changes"

text \<open>An entry of the current check whose selector matched in the baseline and no longer does.\<close>

definition vanished :: "check \<Rightarrow> (string \<times> nat) \<Rightarrow> bool" where
  "vanished baseline e = (snd e = 0 \<and> 0 < baselineCount baseline (fst e))"

text \<open>The record pushed for a selector that is no longer found.\<close>

definition structure_record :: "string \<Rightarrow> nat \<Rightarrow> check \<Rightarrow> string \<Rightarrow> change" where
  "structure_record u now baseline selector =
     \<lparr> change_url = u, change_timestamp = now, changeType = ''structure'',
       change_severity = ''warning'', description = selector_gone selector,
       before = baselineCount baseline selector, after = 0 \<rparr>"

section \<open>Alerting system\<close>

text \<open>
  The events \<open>pipe\<close> builds from the monitor's \<open>health-check\<close> and
  \<open>environment-change\<close> notifications, whose data is a check or a change record, and an
  event of any other type (type, source, timestamp). A health check carries the number of
  its issues next to the fields of \<open>check\<close>.
\<close>

datatype alert_event =
    HealthCheck check nat
  | EnvironmentChange change
  | OtherEvent string string nat

text \<open>\<open>event.type\<close>\<close>

definition event_type :: "alert_event \<Rightarrow> string" where
  "event_type ev =
     (case ev of
        HealthCheck c n \<Rightarrow> ''health-check''
      | EnvironmentChange c \<Rightarrow> ''environment-change''
      | OtherEvent t src ts \<Rightarrow> t)"

text \<open>
  An alert rule. \<open>throttle\<close> is in minutes and optional; \<open>message\<close> is optional.
\<close>

record rule =
  name :: string
  condition :: "alert_event \<Rightarrow> bool"
  severity :: string
  channels :: "string list"
  message :: "(alert_event \<Rightarrow> string) option"
  throttle :: "nat option"

record alert_config =
  rules :: "rule list"
  throttleMinutes :: nat

text \<open>The constructor: \<open>rules || []\<close> and \<open>throttleMinutes || 5\<close>.\<close>

definition AlertingSystem :: "rule list option \<Rightarrow> nat option \<Rightarrow> alert_config" where
  "AlertingSystem rs tm =
     \<lparr> rules = (case rs of None \<Rightarrow> [] | Some l \<Rightarrow> l),
       throttleMinutes = (case tm of None \<Rightarrow> 5 | Some m \<Rightarrow> if m = 0 then 5 else m) \<rparr>"

text \<open>
  The alert object. Its id is \<open>`alert_${++this.alertCounter}_${Date.now()}`\<close>, and
  \<open>deliveryResults\<close> is keyed by channel.
\<close>

record alert =
  alert_id :: string
  alert_rule :: string
  alert_severity :: string
  alert_timestamp :: nat
  alert_message :: string
  alert_channels :: "string list"
  alert_event :: alert_event
  delivered :: bool
  deliveryResults :: "string \<rightharpoonup> bool"

text \<open>
  \<open>sent\<close> lists the calls of the channel senders (\<open>deliverToConsole\<close>,
  \<open>deliverToSlack\<close>, \<open>deliverToEmail\<close>, \<open>deliverToWebhook\<close>): channel, rule and alert
  id. \<open>alerts_emitted\<close> lists the \<open>alert\<close> events. \<open>lastAlerts\<close> maps a rule name to
  the time, in milliseconds, of its last alert.
\<close>

record alerting_state =
  alertHistory :: "alert list"
  lastAlerts :: "string \<rightharpoonup> nat"
  alertCounter :: nat
  sent :: "(string \<times> string \<times> string) list"
  alerts_emitted :: "alert list"

text \<open>The text of an alert whose rule has no \<open>message\<close> function.\<close>

definition generateDefaultMessage :: "rule \<Rightarrow> alert_event \<Rightarrow> string" where
  "generateDefaultMessage r ev =
     (case ev of
        HealthCheck c n \<Rightarrow>
          ''Health check '' @ check_status c @ '' for '' @ check_url c @
          ''. Response time: '' @ decimal (responseTime c) @ ''ms. Issues: '' @ decimal n
      | EnvironmentChange c \<Rightarrow>
          changeType c @ '' change detected on '' @ change_url c @ '': '' @ description c
      | OtherEvent t src ts \<Rightarrow> ''Alert triggered: '' @ name r)"

text \<open>
  \<open>rule.throttle || this.config.throttleMinutes\<close>, in milliseconds: the throttle window.
\<close>

definition throttleMs :: "alert_config \<Rightarrow> rule \<Rightarrow> nat" where
  "throttleMs cfg r =
     (let minutes = (case throttle r of
                       None \<Rightarrow> throttleMinutes cfg
                     | Some t \<Rightarrow> if t = 0 then throttleMinutes cfg else t)
      in minutes * 60 * 1000)"

text \<open>\<open>now\<close> is the time read by \<open>Date.now()\<close>.\<close>

definition isThrottled :: "alert_config \<Rightarrow> nat \<Rightarrow> rule \<Rightarrow> alerting_state \<Rightarrow> bool" where
  "isThrottled cfg now r s =
     (case lastAlerts s (name r) of
        None \<Rightarrow> False
      | Some lastAlert \<Rightarrow> int now - int lastAlert < int (throttleMs cfg r))"

text \<open>
  The loop of \<open>deliverAlert\<close> over the channels: a known channel has its sender called
  and its result set to true, any other channel is skipped. The senders print and return;
  they do not throw on an alert built by \<open>createAndSendAlert\<close>.
\<close>

definition known_channel :: "string \<Rightarrow> bool" where
  "known_channel c = (c \<in> {''console'', ''slack'', ''email'', ''webhook''})"

fun deliver_each :: "string list \<Rightarrow> alert \<Rightarrow> alerting_state \<Rightarrow> alert \<times> alerting_state" where
  "deliver_each [] a s = (a, s)"
| "deliver_each (c # cs) a s =
     (if known_channel c
      then deliver_each cs (a\<lparr>deliveryResults := (deliveryResults a)(c \<mapsto> True)\<rparr>)
             (s\<lparr>sent := sent s @ [(c, alert_rule a, alert_id a)]\<rparr>)
      else deliver_each cs a s)"

definition deliverAlert :: "alert \<Rightarrow> string list \<Rightarrow> alerting_state \<Rightarrow> alert \<times> alerting_state" where
  "deliverAlert a cs s =
     (let (a1, s1) = deliver_each cs a s
      in (a1\<lparr>delivered := list_ex (\<lambda>c. deliveryResults a1 c = Some True) cs\<rparr>, s1))"

text \<open>
  \<open>createAndSendAlert\<close> in two parts, before and after its
  \<open>await this.deliverAlert(...)\<close>: building and delivering the alert, then pushing it on
  the history and emitting it. The awaits inside \<open>deliverAlert\<close> are not modelled as
  suspension points of their own: the senders neither read nor write \<open>lastAlerts\<close> or
  \<open>alertHistory\<close>.
\<close>

definition begin_alert ::
  "nat \<Rightarrow> rule \<Rightarrow> alert_event \<Rightarrow> alerting_state \<Rightarrow> alert \<times> alerting_state" where
  "begin_alert now r ev s =
     (let text = (case message r of Some f \<Rightarrow> f ev | None \<Rightarrow> generateDefaultMessage r ev);
          counter = alertCounter s + 1;
          a0 = \<lparr> alert_id = ''alert_'' @ decimal counter @ ''_'' @ decimal now,
                 alert_rule = name r, alert_severity = severity r, alert_timestamp = now,
                 alert_message = text, alert_channels = channels r, alert_event = ev,
                 delivered = False, deliveryResults = Map.empty \<rparr>
      in deliverAlert a0 (channels r) (s\<lparr>alertCounter := counter\<rparr>))"

definition finish_alert :: "alert \<Rightarrow> alerting_state \<Rightarrow> alerting_state" where
  "finish_alert a s =
     s\<lparr>alertHistory := alertHistory s @ [a], alerts_emitted := alerts_emitted s @ [a]\<rparr>"

definition createAndSendAlert ::
  "nat \<Rightarrow> rule \<Rightarrow> alert_event \<Rightarrow> alerting_state \<Rightarrow> alert \<times> alerting_state" where
  "createAndSendAlert now r ev s =
     (let (a, s1) = begin_alert now r ev s in (a, finish_alert a s1))"

text \<open>
  \<open>processEvent\<close> when nothing else runs while it awaits: the loop over the rules, with
  \<open>alerts\<close> the array it returns. \<open>now\<close> is the time of the call; the clock does not
  advance within it.
\<close>

fun process_rules ::
  "alert_config \<Rightarrow> nat \<Rightarrow> alert_event \<Rightarrow> rule list \<Rightarrow> alert list \<Rightarrow> alerting_state
     \<Rightarrow> alert list \<times> alerting_state" where
  "process_rules cfg now ev [] alerts s = (alerts, s)"
| "process_rules cfg now ev (r # rs) alerts s =
     (if \<not> condition r ev then process_rules cfg now ev rs alerts s
      else if isThrottled cfg now r s then process_rules cfg now ev rs alerts s
      else (let (a, s1) = createAndSendAlert now r ev s;
                s2 = s1\<lparr>lastAlerts := (lastAlerts s1)(name r \<mapsto> now)\<rparr>
            in process_rules cfg now ev rs (alerts @ [a]) s2))"

definition processEvent ::
  "alert_config \<Rightarrow> nat \<Rightarrow> alert_event \<Rightarrow> alerting_state \<Rightarrow> alert list \<times> alerting_state" where
  "processEvent cfg now ev s = process_rules cfg now ev (rules cfg) [] s"

text \<open>The alerts of one rule name, and the sender calls made for it.\<close>

definition alerts_of :: "string \<Rightarrow> alert list \<Rightarrow> alert list" where
  "alerts_of n as = filter (\<lambda>a. alert_rule a = n) as"

definition sent_for :: "string \<Rightarrow> alerting_state \<Rightarrow> (string \<times> string \<times> string) list" where
  "sent_for n s = filter (\<lambda>(c, rl, i). rl = n) (sent s)"

text \<open>
  \<open>processEvent\<close> as the asynchronous function it is. A call runs until it reaches
  \<open>await this.createAndSendAlert(rule, event)\<close> for a rule that matched and was not
  throttled, and is suspended there, \<open>Awaiting\<close> (event, rule, alert, rules left, alerts so
  far); other code, such as another call of \<open>processEvent\<close>, may run before it is resumed.
  On resumption the alert is pushed on the history and emitted, \<open>lastAlerts\<close> is set for
  the rule, and the loop goes on. \<open>Resolved\<close> is the returned array.
\<close>

datatype call =
    Awaiting alert_event rule alert "rule list" "alert list"
  | Resolved "alert list"

fun scan_rules ::
  "alert_config \<Rightarrow> nat \<Rightarrow> alert_event \<Rightarrow> rule list \<Rightarrow> alert list \<Rightarrow> alerting_state
     \<Rightarrow> call \<times> alerting_state" where
  "scan_rules cfg now ev [] alerts s = (Resolved alerts, s)"
| "scan_rules cfg now ev (r # rs) alerts s =
     (if \<not> condition r ev then scan_rules cfg now ev rs alerts s
      else if isThrottled cfg now r s then scan_rules cfg now ev rs alerts s
      else (let (a, s1) = begin_alert now r ev s in (Awaiting ev r a rs alerts, s1)))"

definition start_processEvent ::
  "alert_config \<Rightarrow> nat \<Rightarrow> alert_event \<Rightarrow> alerting_state \<Rightarrow> call \<times> alerting_state" where
  "start_processEvent cfg now ev s = scan_rules cfg now ev (rules cfg) [] s"

fun resume :: "alert_config \<Rightarrow> nat \<Rightarrow> call \<Rightarrow> alerting_state \<Rightarrow> call \<times> alerting_state" where
  "resume cfg now (Resolved alerts) s = (Resolved alerts, s)"
| "resume cfg now (Awaiting ev r a rs alerts) s =
     (let s1 = finish_alert a s;
          s2 = s1\<lparr>lastAlerts := (lastAlerts s1)(name r \<mapsto> now)\<rparr>
      in scan_rules cfg now ev rs (alerts @ [a]) s2)"

text \<open>
  Two calls made in the same turn of the event loop, as \<open>pipe\<close> makes them when the monitor
  emits two events one after the other: both run to their first \<open>await\<close>, then both are
  resumed, in the order of the calls.
\<close>

definition overlapping_calls ::
  "alert_config \<Rightarrow> nat \<Rightarrow> alert_event \<Rightarrow> alert_event \<Rightarrow> alerting_state \<Rightarrow> alerting_state" where
  "overlapping_calls cfg now e1 e2 s =
     (let (c1, s1) = start_processEvent cfg now e1 s;
          (c2, s2) = start_processEvent cfg now e2 s1;
          (d1, s3) = resume cfg now c1 s2;
          (d2, s4) = resume cfg now c2 s3
      in s4)"

section \<open>Example inputs\<close>

subsection \<open>Escalation\<close>

definition initial_state :: handler_state where
  "initial_state = \<lparr> escalationHistory = [], emitted = [] \<rparr>"

definition signalling_result :: exec_result where
  "signalling_result =
     \<lparr> success = True, url = ''https://example.com'', statusCode = 200, body = [],
       retryCount = 0, escalationNeeded = True,
       escalationReason = Some ''Minimal content - likely SPA'', error = None \<rparr>"

definition clean_result :: exec_result where
  "clean_result =
     \<lparr> success = True, url = ''https://example.com'', statusCode = 200, body = ''<html>ok</html>'',
       retryCount = 0, escalationNeeded = False, escalationReason = None, error = None \<rparr>"

definition always :: "exec_result \<Rightarrow> executor" where
  "always r = ExFunction (\<lambda>u opts. Returns r)"

definition no_options :: options where
  "no_options = \<lparr> startLevel = None \<rparr>"

definition all_signalling :: executors where
  "all_signalling =
     [''http'' \<mapsto> always signalling_result,
      ''browser-light'' \<mapsto> always signalling_result,
      ''browser-advanced'' \<mapsto> always signalling_result]"

definition http_only :: "exec_result \<Rightarrow> executors" where
  "http_only r = [''http'' \<mapsto> always r]"

definition http_then_light :: executors where
  "http_then_light =
     [''http'' \<mapsto> always signalling_result, ''browser-light'' \<mapsto> always clean_result]"

definition js_wall :: response where
  "js_wall = \<lparr> status = 200, headers = [],
       data = StrData ''<html><body>Please enable JavaScript to continue</body></html>'' \<rparr>"

definition net_js_wall :: "nat \<Rightarrow> response completion" where
  "net_js_wall i = Returns js_wall"

definition net_timeouts :: "nat \<Rightarrow> response completion" where
  "net_timeouts i = Throws ''timeout of 30000ms exceeded''"

definition net_blocked :: "nat \<Rightarrow> response completion" where
  "net_blocked i =
     (if i = 0 then Throws ''timeout of 30000ms exceeded''
      else Throws ''Request failed with status code 403'')"

definition net_blocked_last :: "nat \<Rightarrow> response completion" where
  "net_blocked_last i =
     (if i < 3 then Throws ''timeout of 30000ms exceeded''
      else Throws ''Request failed with status code 403'')"

definition js_wall_executors :: executors where
  "js_wall_executors =
     [''http'' \<mapsto> HttpExecutor default_http_config net_js_wall,
      ''browser-light'' \<mapsto> always clean_result]"

subsection \<open>Responses for the analyzer\<close>

definition cloudflare_api :: response where
  "cloudflare_api =
     \<lparr> status = 200, headers = [(''cf-ray'', ''8a1b2c3d'')], data = OtherData ''{}'' \<rparr>"

definition akamai_api :: response where
  "akamai_api =
     \<lparr> status = 200, headers = [(''server'', ''AkamaiGHost'')], data = OtherData ''{}'' \<rparr>"

definition cloudflare_spa :: response where
  "cloudflare_spa =
     \<lparr> status = 200, headers = [(''cf-ray'', ''8a1b2c3d'')],
       data = StrData ''<div id=root data-reactroot></div>'' \<rparr>"

definition protected_page :: response where
  "protected_page =
     \<lparr> status = 403,
       headers = [(''cf-ray'', ''8a1b2c3d''), (''x-cdn'', ''Incapsula'')],
       data = StrData ''<div data-reactroot data-src=x>Checking: Cloudflare</div>'' \<rparr>"

subsection \<open>Checks of a monitored target\<close>

definition baseline_check :: check where
  "baseline_check =
     \<lparr> check_url = ''https://example.com/pricing'', check_timestamp = 0,
       check_status = ''healthy'', responseTime = 100,
       selectorMatches = [(''.price'', 3), (''.product'', 5)] \<rparr>"

definition later_check :: check where
  "later_check =
     \<lparr> check_url = ''https://example.com/pricing'', check_timestamp = 3600000,
       check_status = ''warning'', responseTime = 250,
       selectorMatches = [(''.price'', 0), (''.product'', 2)] \<rparr>"

definition monitored :: monitor_state where
  "monitored = \<lparr> baselines = [''https://example.com/pricing'' \<mapsto> baseline_check] \<rparr>"

definition all_gone_check :: check where
  "all_gone_check =
     \<lparr> check_url = ''https://example.com/pricing'', check_timestamp = 7200000,
       check_status = ''warning'', responseTime = 120,
       selectorMatches = [(''.price'', 0), (''.product'', 0)] \<rparr>"

subsection \<open>Alert rules and events\<close>

text \<open>Two of \<open>defaultAlertRules\<close>, and the state the constructor builds.\<close>

definition structure_change_rule :: rule where
  "structure_change_rule =
     \<lparr> name = ''Structure Change'',
       condition = (\<lambda>ev. case ev of EnvironmentChange c \<Rightarrow> changeType c = ''structure''
                          | _ \<Rightarrow> False),
       severity = ''warning'',
       channels = [''console'', ''slack''],
       message = Some (\<lambda>ev. case ev of
                    EnvironmentChange c \<Rightarrow>
                      ''Structure change on '' @ change_url c @ '': '' @ description c
                  | _ \<Rightarrow> []),
       throttle = None \<rparr>"

definition performance_degradation_rule :: rule where
  "performance_degradation_rule =
     \<lparr> name = ''Performance Degradation'',
       condition = (\<lambda>ev. case ev of HealthCheck c n \<Rightarrow> responseTime c > 10000 | _ \<Rightarrow> False),
       severity = ''warning'',
       channels = [''console''],
       message = Some (\<lambda>ev. case ev of
                    HealthCheck c n \<Rightarrow>
                      ''Slow response from '' @ check_url c @ '': '' @
                      decimal (responseTime c) @ ''ms''
                  | _ \<Rightarrow> []),
       throttle = Some 30 \<rparr>"

definition example_alerting :: alert_config where
  "example_alerting =
     AlertingSystem (Some [structure_change_rule, performance_degradation_rule]) None"

definition initial_alerting :: alerting_state where
  "initial_alerting =
     \<lparr> alertHistory = [], lastAlerts = Map.empty, alertCounter = 0, sent = [],
       alerts_emitted = [] \<rparr>"

definition price_gone :: alert_event where
  "price_gone =
     EnvironmentChange
       \<lparr> change_url = ''https://example.com/pricing'', change_timestamp = 0,
         changeType = ''structure'', change_severity = ''warning'',
         description = selector_gone ''.price'', before = 3, after = 0 \<rparr>"

definition product_gone :: alert_event where
  "product_gone =
     EnvironmentChange
       \<lparr> change_url = ''https://example.com/pricing'', change_timestamp = 0,
         changeType = ''structure'', change_severity = ''warning'',
         description = selector_gone ''.product'', before = 5, after = 0 \<rparr>"

section \<open>Properties of the escalation handler\<close>

lemmas example_defs =
  executeWithEscalation_def loop.simps run_pass_def executeAtLevel_def getNextLevel_def
  EscalationHandler_def default_levels_def start_level_def emit_def Let_def
  initial_state_def signalling_result_def clean_result_def always_def no_options_def
  all_signalling_def http_only_def http_then_light_def new_events_def new_history_def

lemma indexOf_ge: "- 1 \<le> indexOf xs x"
  by (induction xs) (auto simp: Let_def)

lemma indexOf_nth: "distinct xs \<Longrightarrow> i < length xs \<Longrightarrow> indexOf xs (xs ! i) = int i"
proof (induction xs arbitrary: i)
  case Nil
  then show ?case by simp
next
  case (Cons y ys)
  show ?case
  proof (cases i)
    case 0
    then show ?thesis by simp
  next
    case (Suc j)
    with Cons.prems have "ys ! j \<in> set ys" "y \<notin> set ys" "j < length ys" by auto
    moreover from Cons.IH[of j] Cons.prems Suc have "indexOf ys (ys ! j) = int j" by simp
    ultimately show ?thesis using Suc by (auto simp: Let_def)
  qed
qed

lemma getNextLevel_Some:
  assumes "getNextLevel cfg cur = Some nxt"
  shows "indexOf (levels cfg) cur + 1 < int (length (levels cfg))"
    and "nxt = levels cfg ! nat (indexOf (levels cfg) cur + 1)"
  using assms by (auto simp: getNextLevel_def Let_def split: if_splits)

lemma getNextLevel_index:
  assumes "distinct (levels cfg)" "getNextLevel cfg cur = Some nxt"
  shows "indexOf (levels cfg) nxt = indexOf (levels cfg) cur + 1"
proof -
  let ?i = "indexOf (levels cfg) cur"
  have lt: "?i + 1 < int (length (levels cfg))" and nx: "nxt = levels cfg ! nat (?i + 1)"
    using getNextLevel_Some[OF assms(2)] by auto
  have ge: "0 \<le> ?i + 1" using indexOf_ge[of "levels cfg" cur] by simp
  then have "nat (?i + 1) < length (levels cfg)" using lt by simp
  then have "indexOf (levels cfg) nxt = int (nat (?i + 1))"
    using indexOf_nth[OF assms(1)] nx by simp
  then show ?thesis using ge by simp
qed

lemma run_pass_Continue:
  assumes "run_pass cfg clock u exs opts cur cnt s = Continue nxt s'"
  shows "getNextLevel cfg cur = Some nxt"
    and "attempted (new_events s s') = [cur]"
    and "emitted s' = emitted s @ new_events s s'"
    and "escalationHistory s' = escalationHistory s @ new_history s s'"
    and "map (\<lambda>h. (h_url h, fromLevel h, reason h)) (new_history s s') = escalations (new_events s s')"
    and "set (map fromLevel (new_history s s')) \<subseteq> {cur}"
    and "map timestamp (new_history s s') = map (\<lambda>_. clock cnt) (new_history s s')"
    and "map fromLevel (new_history s s') = [] \<or> map fromLevel (new_history s s') = [cur]"
  using assms
  by (auto simp: run_pass_def emit_def new_events_def new_history_def Let_def
           split: option.splits completion.splits if_splits)

lemma run_pass_Done:
  assumes "run_pass cfg clock u exs opts cur cnt s = Done out s'"
  shows "escalationHistory s' = escalationHistory s"
    and "emitted s' = emitted s @ new_events s s'"
    and "attempted (new_events s s') = (if exs cur = None then [] else [cur])"
    and "escalations (new_events s s') = []"
    and "out = Undefined \<longleftrightarrow> exs cur = None"
  using assms
  by (auto simp: run_pass_def emit_def new_events_def  Let_def
           split: option.splits completion.splits if_splits)

lemma attempted_append: "attempted (a @ b) = attempted a @ attempted b"
  by (induction a rule: attempted.induct) auto

lemma escalations_append: "escalations (a @ b) = escalations a @ escalations b"
  by (induction a rule: escalations.induct) auto

lemma loop_inv:
  "loop cfg clock u exs opts cur cnt s = (out, s') \<Longrightarrow>
   \<exists>evs hs. emitted s' = emitted s @ evs \<and> escalationHistory s' = escalationHistory s @ hs
     \<and> (distinct (levels cfg) \<longrightarrow>
          sorted_wrt (<) (map (indexOf (levels cfg)) (attempted evs))
        \<and> (\<forall>l\<in>set (attempted evs). indexOf (levels cfg) cur \<le> indexOf (levels cfg) l))
     \<and> map proj hs = escalations evs
     \<and> subseq (map fromLevel hs) (attempted evs)
     \<and> (out \<noteq> Undefined \<longrightarrow> length hs < length (attempted evs))"
proof (induction cfg clock u exs opts cur cnt s arbitrary: out s' rule: loop.induct)
  case (1 cfg clock u exs opts cur cnt s)
  let ?ix = "indexOf (levels cfg)"
  show ?case
  proof (cases "cnt < length (levels cfg)")
    case False
    with "1.prems" have "s' = s" "out = Undefined" by (subst (asm) loop.simps, simp)+
    then show ?thesis by (intro exI[of _ "[]"]) simp
  next
    case True
    show ?thesis
    proof (cases "run_pass cfg clock u exs opts cur cnt s")
      case (Done out1 s1)
      with True "1.prems" have eq: "s' = s1" "out = out1"
        by (subst (asm) loop.simps, simp)+
      note d = run_pass_Done[OF Done]
      show ?thesis
        apply (rule exI[of _ "new_events s s1"], rule exI[of _ "[]"])
        using d eq by (auto split: if_splits)
    next
      case (Continue nxt s1)
      with True "1.prems" have run: "loop cfg clock u exs opts nxt (Suc cnt) s1 = (out, s')"
        by (subst (asm) loop.simps) simp
      from "1.IH"[OF True Continue run]
      obtain evs hs where
        e: "emitted s' = emitted s1 @ evs" and
        h: "escalationHistory s' = escalationHistory s1 @ hs" and
        srt: "distinct (levels cfg) \<Longrightarrow> sorted_wrt (<) (map ?ix (attempted evs))" and
        ge: "distinct (levels cfg) \<Longrightarrow> \<forall>l\<in>set (attempted evs). ?ix nxt \<le> ?ix l" and
        pr: "map proj hs = escalations evs" and
        sub: "subseq (map fromLevel hs) (attempted evs)" and
        len: "out \<noteq> Undefined \<Longrightarrow> length hs < length (attempted evs)"
        by blast
      note c = run_pass_Continue[OF Continue]
      have nx: "distinct (levels cfg) \<Longrightarrow> ?ix nxt = ?ix cur + 1"
        using getNextLevel_index[OF _ c(1)] .
      let ?evs = "new_events s s1 @ evs" and ?hs = "new_history s s1 @ hs"
      have 1: "emitted s' = emitted s @ ?evs" using e c(3) by simp
      have 2: "escalationHistory s' = escalationHistory s @ ?hs" using h c(4) by simp
      have att: "attempted ?evs = cur # attempted evs"
        using c(2) by (simp add: attempted_append)
      have 3: "distinct (levels cfg) \<Longrightarrow> sorted_wrt (<) (map ?ix (attempted ?evs))"
        unfolding att using srt ge nx by auto
      have 4: "distinct (levels cfg) \<Longrightarrow> \<forall>l\<in>set (attempted ?evs). ?ix cur \<le> ?ix l"
        unfolding att using ge nx by auto
      have 5: "map proj ?hs = escalations ?evs"
        using pr c(5) by (simp add: escalations_append)
      have one: "map fromLevel (new_history s s1) = [] \<or> map fromLevel (new_history s s1) = [cur]"
        using c(8) .
      then have 6: "subseq (map fromLevel ?hs) (attempted ?evs)"
        unfolding att using sub by auto
      have "length (new_history s s1) \<le> 1"
        using one by (metis length_map list.size(3) list.size(4) zero_le One_nat_def
            add.left_neutral le_refl)
      then have 7: "out \<noteq> Undefined \<Longrightarrow> length ?hs < length (attempted ?evs)"
        unfolding att using len by auto
      from 1 2 3 4 5 6 7 show ?thesis by blast
    qed
  qed
qed

lemma sorted_wrt_subseq: "subseq xs ys \<Longrightarrow> sorted_wrt P ys \<Longrightarrow> sorted_wrt P xs"
proof (induction xs ys rule: list_emb.induct)
  case (list_emb_Nil ys)
  then show ?case by simp
next
  case (list_emb_Cons xs ys y)
  then show ?case by simp
next
  case (list_emb_Cons2 x y xs ys)
  have "set xs \<subseteq> set ys"
  proof
    fix a assume "a \<in> set xs"
    with list_emb_Cons2(2) show "a \<in> set ys" by (auto elim: list_emb_set)
  qed
  with list_emb_Cons2 show ?case by auto
qed

lemma new_events_append: "emitted s' = emitted s @ evs \<Longrightarrow> new_events s s' = evs"
  by (simp add: new_events_def)

lemma new_history_append:
  "escalationHistory s' = escalationHistory s @ hs \<Longrightarrow> new_history s s' = hs"
  by (simp add: new_history_def)





lemma default_next_level:
  assumes "levels cfg = default_levels"
  shows "getNextLevel cfg ''http'' = Some ''browser-light''"
    and "getNextLevel cfg ''browser-light'' = Some ''browser-advanced''"
    and "getNextLevel cfg ''browser-advanced'' = None"
  using assms by (simp_all add: getNextLevel_def default_levels_def)

lemma run_pass_advances:
  assumes "advances cfg exs u opts cur = Some nxt"
  shows "\<exists>s'. run_pass cfg clock u exs opts cur cnt s = Continue nxt s'
           \<and> new_history s s' = recorded cfg clock exs u opts (cnt, cur)"
  using assms
  by (auto simp: advances_def run_pass_def recorded_def result_at_def emit_def new_history_def
        Let_def split: option.splits completion.splits if_splits)

lemma run_pass_stops:
  assumes "advances cfg exs u opts cur = None"
  shows "\<exists>out s'. run_pass cfg clock u exs opts cur cnt s = Done out s'"
    and "recorded cfg clock exs u opts (cnt, cur) = []"
  using assms
  by (auto simp: advances_def run_pass_def recorded_def result_at_def Let_def
        split: option.splits completion.splits if_splits)

lemma new_events_trans:
  "emitted s1 = emitted s @ a \<Longrightarrow> emitted s' = emitted s1 @ b \<Longrightarrow> new_events s s' = a @ b"
  by (simp add: new_events_def)

lemma new_history_trans:
  "escalationHistory s1 = escalationHistory s @ a \<Longrightarrow>
   escalationHistory s' = escalationHistory s1 @ b \<Longrightarrow> new_history s s' = a @ b"
  by (simp add: new_history_def)

lemma loop_trace:
  "loop cfg clock u exs opts cur cnt s = (out, s') \<Longrightarrow>
     attempted (new_events s s') = map snd (attempts cfg exs u opts cur cnt)
   \<and> new_history s s' = concat (map (recorded cfg clock exs u opts) (attempts cfg exs u opts cur cnt))"
proof (induction cfg clock u exs opts cur cnt s arbitrary: out s' rule: loop.induct)
  case (1 cfg clock u exs opts cur cnt s)
  show ?case
  proof (cases "cnt < length (levels cfg) \<and> exs cur \<noteq> None")
    case False
    then have "loop cfg clock u exs opts cur cnt s = (Undefined, s)"
      by (subst loop.simps) (auto simp: run_pass_def)
    with "1.prems" have "s' = s" by simp
    moreover have "attempts cfg exs u opts cur cnt = []"
      using False by (subst attempts.simps) auto
    ultimately show ?thesis by (simp add: new_events_def new_history_def)
  next
    case True
    then have lt: "cnt < length (levels cfg)" and ex: "exs cur \<noteq> None" by auto
    show ?thesis
    proof (cases "advances cfg exs u opts cur")
      case None
      from run_pass_stops(1)[OF None, of clock cnt s] obtain out1 s1 where
        d: "run_pass cfg clock u exs opts cur cnt s = Done out1 s1" by blast
      have r: "recorded cfg clock exs u opts (cnt, cur) = []"
        using run_pass_stops(2)[OF None] .
      from d lt "1.prems" have "s' = s1" by (subst (asm) loop.simps) simp
      moreover note f = run_pass_Done[OF d]
      moreover have "attempts cfg exs u opts cur cnt = [(cnt, cur)]"
        using True None by (subst attempts.simps) simp
      ultimately show ?thesis using ex r by (simp add: new_history_def)
    next
      case (Some nxt)
      from run_pass_advances[OF Some, of clock cnt s] obtain s1 where
        c: "run_pass cfg clock u exs opts cur cnt s = Continue nxt s1"
        and h1: "new_history s s1 = recorded cfg clock exs u opts (cnt, cur)" by blast
      from c lt "1.prems" have run: "loop cfg clock u exs opts nxt (Suc cnt) s1 = (out, s')"
        by (subst (asm) loop.simps) simp
      note ih = "1.IH"[OF lt c run]
      note f = run_pass_Continue[OF c]
      from loop_inv[OF run] obtain evs hs where
        e: "emitted s' = emitted s1 @ evs" and h: "escalationHistory s' = escalationHistory s1 @ hs"
        by blast
      have ne: "new_events s s' = new_events s s1 @ new_events s1 s'"
        using new_events_trans[OF f(3) e] new_events_append[OF e] by simp
      have nh: "new_history s s' = new_history s s1 @ new_history s1 s'"
        using new_history_trans[OF f(4) h] new_history_append[OF h] by simp
      have a: "attempts cfg exs u opts cur cnt = (cnt, cur) # attempts cfg exs u opts nxt (Suc cnt)"
        using True Some by (subst attempts.simps) simp
      show ?thesis
        unfolding ne nh a using ih f(2) h1 by (simp add: attempted_append)
    qed
  qed
qed



text \<open>
  Claim C3. In a single run the tiers attempted, and the \<open>fromLevel\<close> values of the
  history entries the run appends, are non-decreasing in the position \<open>indexOf\<close> gives
  them in the configured levels (a level that is not configured has position \<open>-1\<close>).
  The positions are in fact strictly increasing (\<open>loop_inv\<close>).
\<close>

theorem tiers_never_decrease:
  assumes "distinct (levels cfg)"
  shows "sorted_wrt (\<lambda>a b. indexOf (levels cfg) a \<le> indexOf (levels cfg) b)
           (attempted (new_events s (snd (executeWithEscalation cfg clock u exs opts s))))
       \<and> sorted_wrt (\<lambda>a b. indexOf (levels cfg) a \<le> indexOf (levels cfg) b)
           (map fromLevel (new_history s (snd (executeWithEscalation cfg clock u exs opts s))))"
proof -
  obtain out s' where run: "loop cfg clock u exs opts (start_level opts) 0 s = (out, s')"
    by (cases "loop cfg clock u exs opts (start_level opts) 0 s")
  from loop_inv[OF run] assms obtain evs hs where
    e: "emitted s' = emitted s @ evs" and h: "escalationHistory s' = escalationHistory s @ hs" and
    srt: "sorted_wrt (<) (map (indexOf (levels cfg)) (attempted evs))" and
    sub: "subseq (map fromLevel hs) (attempted evs)"
    by blast
  have lt: "sorted_wrt (\<lambda>a b. indexOf (levels cfg) a < indexOf (levels cfg) b) (attempted evs)"
    using srt by (simp add: sorted_wrt_map)
  have le: "sorted_wrt (\<lambda>a b. indexOf (levels cfg) a \<le> indexOf (levels cfg) b) (attempted evs)"
    by (rule sorted_wrt_mono_rel[OF _ lt]) simp
  have "sorted_wrt (\<lambda>a b. indexOf (levels cfg) a \<le> indexOf (levels cfg) b) (map fromLevel hs)"
    by (rule sorted_wrt_subseq[OF sub le])
  with le show ?thesis
    unfolding executeWithEscalation_def run
    using new_events_append[OF e] new_history_append[OF h] by simp
qed

text \<open>
  The default handler, whose levels are distinct, on executors that always signal
  escalation.
\<close>

theorem tiers_never_decrease_witness:
  "distinct (levels (EscalationHandler None None))
   \<and> attempted (new_events initial_state
        (snd (executeWithEscalation (EscalationHandler None None) (\<lambda>k. 1000 * k)
           ''https://example.com'' all_signalling no_options initial_state))) =
       [''http'', ''browser-light'', ''browser-advanced'']
   \<and> sorted_wrt (\<lambda>a b. indexOf default_levels a \<le> indexOf default_levels b)
        (map fromLevel (new_history initial_state
          (snd (executeWithEscalation (EscalationHandler None None) (\<lambda>k. 1000 * k)
             ''https://example.com'' all_signalling no_options initial_state))))"
proof -
  have d: "distinct (levels (EscalationHandler None None))"
    by (simp add: EscalationHandler_def default_levels_def)
  have l: "levels (EscalationHandler None None) = default_levels"
    by (simp add: EscalationHandler_def)
  have a: "attempted (new_events initial_state
        (snd (executeWithEscalation (EscalationHandler None None) (\<lambda>k. 1000 * k)
           ''https://example.com'' all_signalling no_options initial_state))) =
       [''http'', ''browser-light'', ''browser-advanced'']"
    by (simp add: example_defs)
  from tiers_never_decrease[OF d, of initial_state "\<lambda>k. 1000 * k" "''https://example.com''"
      all_signalling no_options]
  show ?thesis using d a unfolding l by simp
qed

text \<open>
  Claim C9 says that every attempt is recorded in \<open>escalationHistory\<close>, with its
  destination tier. A run whose first attempt returns a clean result makes one attempt, at
  \<open>http\<close>, and records nothing. A run that escalates from \<open>http\<close> to
  \<open>browser-light\<close> makes two attempts and records one entry, whose fields are the url,
  \<open>http\<close>, the reason and the time.
\<close>

theorem history_records_only_escalations_counterexample:
  "attempted (emitted (snd (executeWithEscalation (EscalationHandler None None) (\<lambda>k. 1000 * k)
      ''https://example.com'' (http_only clean_result) no_options initial_state))) = [''http'']
   \<and> escalationHistory (snd (executeWithEscalation (EscalationHandler None None) (\<lambda>k. 1000 * k)
      ''https://example.com'' (http_only clean_result) no_options initial_state)) = []
   \<and> attempted (emitted (snd (executeWithEscalation (EscalationHandler None None) (\<lambda>k. 1000 * k)
      ''https://example.com'' http_then_light no_options initial_state))) =
       [''http'', ''browser-light'']
   \<and> escalationHistory (snd (executeWithEscalation (EscalationHandler None None) (\<lambda>k. 1000 * k)
      ''https://example.com'' http_then_light no_options initial_state)) =
       [\<lparr> h_url = ''https://example.com'', fromLevel = ''http'',
          reason = Some ''Minimal content - likely SPA'', timestamp = 0 \<rparr>]"
  by (simp add: example_defs)

text \<open>
  Claim C9, amended. The history records escalations, not attempts. The tiers a run
  attempts are those the rule of the handler gives, and the entries it appends are, in
  order, one for each attempt whose result signals \<open>escalationNeeded\<close> and after which
  the handler moves on, with the url, that tier as \<open>fromLevel\<close>, the reason of the result
  and the time read at that attempt; an attempt whose executor threw and the attempt that
  ends the run leave no entry. The entries correspond one to one to the \<open>escalation\<close>
  events emitted, with the same url, source tier and reason; the destination tier is a field
  of the event only, \<open>history_entry\<close> has none. A run that ends with a result or an error
  has made more attempts than it has recorded entries.
\<close>

theorem history_matches_escalation_events:
  "attempted (new_events s (snd (executeWithEscalation cfg clock u exs opts s))) =
     map snd (attempts cfg exs u opts (start_level opts) 0)
   \<and> new_history s (snd (executeWithEscalation cfg clock u exs opts s)) =
     concat (map (recorded cfg clock exs u opts) (attempts cfg exs u opts (start_level opts) 0))
   \<and> map (\<lambda>h. (h_url h, fromLevel h, reason h))
       (new_history s (snd (executeWithEscalation cfg clock u exs opts s))) =
     escalations (new_events s (snd (executeWithEscalation cfg clock u exs opts s)))
   \<and> subseq (map fromLevel (new_history s (snd (executeWithEscalation cfg clock u exs opts s))))
        (attempted (new_events s (snd (executeWithEscalation cfg clock u exs opts s))))
   \<and> (fst (executeWithEscalation cfg clock u exs opts s) \<noteq> Undefined \<longrightarrow>
        length (new_history s (snd (executeWithEscalation cfg clock u exs opts s))) <
        length (attempted (new_events s (snd (executeWithEscalation cfg clock u exs opts s)))))"
proof -
  obtain out s' where run: "loop cfg clock u exs opts (start_level opts) 0 s = (out, s')"
    by (cases "loop cfg clock u exs opts (start_level opts) 0 s")
  from loop_inv[OF run] obtain evs hs where
    e: "emitted s' = emitted s @ evs" and h: "escalationHistory s' = escalationHistory s @ hs" and
    pr: "map (\<lambda>h. (h_url h, fromLevel h, reason h)) hs = escalations evs" and
    sub: "subseq (map fromLevel hs) (attempted evs)" and
    len: "out \<noteq> Undefined \<longrightarrow> length hs < length (attempted evs)"
    by blast
  note t = loop_trace[OF run]
  show ?thesis
    unfolding executeWithEscalation_def run
    using new_events_append[OF e] new_history_append[OF h] pr sub len t by simp
qed

text \<open>
  One escalation from \<open>http\<close> to \<open>browser-light\<close>: two attempts, one entry, for the
  first.
\<close>

theorem history_matches_escalation_events_witness:
  "fst (executeWithEscalation (EscalationHandler None None) (\<lambda>k. 1000 * k)
      ''https://example.com'' http_then_light no_options initial_state) \<noteq> Undefined
   \<and> attempts (EscalationHandler None None) http_then_light ''https://example.com'' no_options
        (start_level no_options) 0 = [(0, ''http''), (1, ''browser-light'')]
   \<and> new_history initial_state (snd (executeWithEscalation (EscalationHandler None None)
          (\<lambda>k. 1000 * k) ''https://example.com'' http_then_light no_options initial_state)) =
       [\<lparr> h_url = ''https://example.com'', fromLevel = ''http'',
          reason = Some ''Minimal content - likely SPA'', timestamp = 0 \<rparr>]
   \<and> length (new_history initial_state (snd (executeWithEscalation (EscalationHandler None None)
          (\<lambda>k. 1000 * k) ''https://example.com'' http_then_light no_options initial_state))) <
     length (attempted (new_events initial_state (snd (executeWithEscalation
          (EscalationHandler None None) (\<lambda>k. 1000 * k) ''https://example.com'' http_then_light
          no_options initial_state))))"
proof -
  have 1: "fst (executeWithEscalation (EscalationHandler None None) (\<lambda>k. 1000 * k)
      ''https://example.com'' http_then_light no_options initial_state) \<noteq> Undefined"
    by (simp add: example_defs)
  have 2: "attempts (EscalationHandler None None) http_then_light ''https://example.com''
        no_options (start_level no_options) 0 = [(0, ''http''), (1, ''browser-light'')]"
    by (simp add: attempts.simps advances_def executeAtLevel_def getNextLevel_def
        EscalationHandler_def default_levels_def start_level_def no_options_def
        http_then_light_def always_def signalling_result_def clean_result_def)
  have 3: "concat (map (recorded (EscalationHandler None None) (\<lambda>k. 1000 * k) http_then_light
        ''https://example.com'' no_options) [(0, ''http''), (1, ''browser-light'')]) =
       [\<lparr> h_url = ''https://example.com'', fromLevel = ''http'',
          reason = Some ''Minimal content - likely SPA'', timestamp = 0 \<rparr>]"
    by (simp add: recorded_def result_at_def advances_def executeAtLevel_def getNextLevel_def
        EscalationHandler_def default_levels_def
        http_then_light_def always_def signalling_result_def clean_result_def)
  from history_matches_escalation_events[of initial_state "EscalationHandler None None"
      "\<lambda>k. 1000 * k" "''https://example.com''" http_then_light no_options]
  show ?thesis using 1 unfolding 2 3 by simp
qed

text \<open>
  Claim C10. When the executors map has no executor for the current level, at the start
  level or at a level reached by escalation, the promise resolves to \<open>undefined\<close>: not a
  result object and not a rejection.
\<close>

theorem missing_executor_returns_undefined:
  "(exs (start_level opts) = None \<longrightarrow>
      executeWithEscalation cfg clock u exs opts s = (Undefined, s))
   \<and> (exs currentLevel = None \<longrightarrow>
      fst (loop cfg clock u exs opts currentLevel cnt s) = Undefined)"
  by (simp add: executeWithEscalation_def loop.simps run_pass_def)

text \<open>
  An empty executors map, and a map with an \<open>http\<close> executor only whose result asks
  for escalation: the result of \<open>http\<close> is dropped and the caller gets \<open>undefined\<close>.
\<close>

theorem missing_executor_returns_undefined_witness:
  "Map.empty (start_level no_options) = (None :: executor option)
   \<and> executeWithEscalation (EscalationHandler None None) (\<lambda>k. 1000 * k) ''https://example.com''
        Map.empty no_options initial_state = (Undefined, initial_state)
   \<and> http_only signalling_result ''browser-light'' = None
   \<and> fst (loop (EscalationHandler None None) (\<lambda>k. 1000 * k) ''https://example.com''
        (http_only signalling_result) no_options ''browser-light'' 1 initial_state) = Undefined
   \<and> fst (executeWithEscalation (EscalationHandler None None) (\<lambda>k. 1000 * k)
        ''https://example.com'' (http_only signalling_result) no_options initial_state) = Undefined"
proof -
  have none: "http_only signalling_result ''browser-light'' = None"
    by (simp add: http_only_def)
  have run: "fst (executeWithEscalation (EscalationHandler None None) (\<lambda>k. 1000 * k)
        ''https://example.com'' (http_only signalling_result) no_options initial_state) = Undefined"
    by (simp add: example_defs)
  from missing_executor_returns_undefined[of "Map.empty" no_options "EscalationHandler None None"
      "\<lambda>k. 1000 * k" "''https://example.com''" initial_state]
    missing_executor_returns_undefined[of "http_only signalling_result" no_options
      "EscalationHandler None None" "\<lambda>k. 1000 * k" "''https://example.com''" initial_state
      "''browser-light''" 1]
  show ?thesis using none run by simp
qed

section \<open>Properties of the HTTP executor\<close>

lemma str_includes_map: "str_includes s p \<Longrightarrow> str_includes (map f s) (map f p)"
proof (induction s)
  case Nil
  then show ?case by simp
next
  case (Cons c cs)
  from Cons.prems have "prefix p (c # cs) \<or> str_includes cs p" by simp
  then show ?case
  proof
    assume "prefix p (c # cs)"
    then have "prefix (map f p) (map f (c # cs))" by (rule map_mono_prefix)
    then show ?thesis by simp
  next
    assume "str_includes cs p"
    then show ?thesis using Cons.IH by simp
  qed
qed

lemma shouldEscalate_contains:
  assumes "str_includes msg ''403'' \<or> str_includes msg ''forbidden'' \<or>
           str_includes msg ''blocked'' \<or> str_includes msg ''challenge''"
  shows "shouldEscalate msg"
proof -
  have l: "toLowerCase ''403'' = ''403''" "toLowerCase ''forbidden'' = ''forbidden''"
    "toLowerCase ''blocked'' = ''blocked''" "toLowerCase ''challenge'' = ''challenge''"
    by code_simp+
  have "\<And>p. str_includes msg p \<Longrightarrow> str_includes (toLowerCase msg) (toLowerCase p)"
    unfolding toLowerCase_def by (rule str_includes_map)
  from this[of "''403''"] this[of "''forbidden''"] this[of "''blocked''"] this[of "''challenge''"]
    assms
  show ?thesis unfolding shouldEscalate_def Let_def l by blast
qed

lemma fetch_from_skip:
  assumes "k \<le> retries cfg" "\<forall>i<k. \<exists>m. net i = Throws m \<and> \<not> shouldEscalate m"
  shows "\<exists>le. fetch_from cfg net u 0 0 None [] = fetch_from cfg net u k k le (retry_delays cfg k)"
  using assms
proof (induction k)
  case 0
  then show ?case by (auto simp: retry_delays_def)
next
  case (Suc k)
  then obtain le where
    eq: "fetch_from cfg net u 0 0 None [] = fetch_from cfg net u k k le (retry_delays cfg k)"
    by auto
  from Suc.prems obtain m where m: "net k = Throws m" "\<not> shouldEscalate m" by auto
  have "fetch_from cfg net u k k le (retry_delays cfg k) =
        fetch_from cfg net u (Suc k) (Suc k) (Some m) (retry_delays cfg (Suc k))"
    using Suc.prems(1) m by (subst fetch_from.simps) (simp add: retry_delays_def)
  with eq show ?case by auto
qed

lemma fetch_response:
  assumes "k \<le> retries cfg" "\<forall>i<k. \<exists>m. net i = Throws m \<and> \<not> shouldEscalate m"
    "net k = Returns resp"
  shows "fetch cfg net u = (executeRequest u resp k, retry_delays cfg k)"
proof -
  from fetch_from_skip[OF assms(1,2)] obtain le where
    "fetch_from cfg net u 0 0 None [] = fetch_from cfg net u k k le (retry_delays cfg k)" by blast
  moreover have "fetch_from cfg net u k k le (retry_delays cfg k) =
     (executeRequest u resp k, retry_delays cfg k)"
    using assms(1,3) by (subst fetch_from.simps) simp
  ultimately show ?thesis by (simp add: fetch_def)
qed

lemma fetch_blocked:
  assumes "k < retries cfg" "\<forall>i<k. \<exists>m. net i = Throws m \<and> \<not> shouldEscalate m"
    "net k = Throws msg" "shouldEscalate msg"
  shows "fetch cfg net u = (buildEscalationResult u (k + 1) msg, retry_delays cfg k)"
proof -
  from assms(1) have "k \<le> retries cfg" by simp
  from fetch_from_skip[OF this assms(2)] obtain le where
    "fetch_from cfg net u 0 0 None [] = fetch_from cfg net u k k le (retry_delays cfg k)" by blast
  moreover have "fetch_from cfg net u k k le (retry_delays cfg k) =
     (buildEscalationResult u (k + 1) msg, retry_delays cfg k)"
    using assms(1,3,4) by (subst fetch_from.simps) simp
  ultimately show ?thesis by (simp add: fetch_def)
qed

lemma fetch_exhausted:
  assumes "\<forall>i<retries cfg. \<exists>m. net i = Throws m \<and> \<not> shouldEscalate m"
    "net (retries cfg) = Throws msg"
  shows "fetch cfg net u =
           (buildFailureResult u (retries cfg + 1) (Some msg), retry_delays cfg (retries cfg))"
proof -
  let ?n = "retries cfg"
  from fetch_from_skip[OF le_refl assms(1)] obtain le where
    "fetch_from cfg net u 0 0 None [] = fetch_from cfg net u ?n ?n le (retry_delays cfg ?n)"
    by blast
  moreover have "fetch_from cfg net u ?n ?n le (retry_delays cfg ?n) =
     fetch_from cfg net u (?n + 1) (?n + 1) (Some msg) (retry_delays cfg ?n)"
    using assms(2) by (subst fetch_from.simps) simp
  moreover have "fetch_from cfg net u (?n + 1) (?n + 1) (Some msg) (retry_delays cfg ?n) =
     (buildFailureResult u (?n + 1) (Some msg), retry_delays cfg ?n)"
    by (subst fetch_from.simps) simp
  ultimately show ?thesis by (simp add: fetch_def)
qed

lemma executeRequest_javascript:
  assumes "data resp = StrData b" "str_includes b ''Please enable JavaScript''"
  shows "escalationNeeded (executeRequest u resp k)"
    and "escalationReason (executeRequest u resp k) = Some ''JavaScript required''"
  using assms by (simp_all add: executeRequest_def checkForEscalationSignals_def Let_def)

text \<open>
  Claim C1. When the first response the http tier obtains (after any transient errors
  retried within the budget) has a text body containing \<open>Please enable JavaScript\<close>,
  \<open>fetch\<close> returns a result with \<open>escalationNeeded\<close> set and a reason containing
  \<open>JavaScript\<close>. With that executor registered for \<open>http\<close>, auto-escalation on and
  a \<open>browser-light\<close> executor whose result does not ask for escalation, the handler
  attempts \<open>http\<close> and then \<open>browser-light\<close> and returns the latter's result with
  \<open>executionLevel = browser-light\<close> and \<open>escalationCount = 1\<close>.
\<close>

theorem javascript_wall_escalates_to_browser_light:
  assumes "k \<le> retries hcfg" and "\<forall>i<k. \<exists>m. net i = Throws m \<and> \<not> shouldEscalate m"
    and "net k = Returns resp" and "data resp = StrData b"
    and "str_includes b ''Please enable JavaScript''"
    and "exs ''http'' = Some (HttpExecutor hcfg net)"
    and "exs ''browser-light'' = Some ex2" and "executeAtLevel ex2 u opts = Returns r2"
    and "\<not> escalationNeeded r2"
    and "levels cfg = default_levels" and "autoEscalate cfg" and "start_level opts = ''http''"
  shows "escalationNeeded (fst (fetch hcfg net u))
       \<and> (\<exists>why. escalationReason (fst (fetch hcfg net u)) = Some why
                \<and> str_includes why ''JavaScript'')
       \<and> attempted (new_events s (snd (executeWithEscalation cfg clock u exs opts s))) =
            [''http'', ''browser-light'']
       \<and> fst (executeWithEscalation cfg clock u exs opts s) =
            Final \<lparr> result = r2, executionLevel = ''browser-light'', escalationCount = 1 \<rparr>"
proof -
  let ?r = "executeRequest u resp k"
  have f: "fst (fetch hcfg net u) = ?r"
    using fetch_response[OF assms(1,2,3)] by simp
  have n: "escalationNeeded ?r" and w: "escalationReason ?r = Some ''JavaScript required''"
    using executeRequest_javascript[OF assms(4,5)] by auto
  have inc: "str_includes ''JavaScript required'' ''JavaScript''" by simp
  have at1: "executeAtLevel (HttpExecutor hcfg net) u opts = Returns ?r"
    by (simp add: executeAtLevel_def HttpExecutor_def f)
  obtain s1 where p1: "run_pass cfg clock u exs opts ''http'' 0 s = Continue ''browser-light'' s1"
    and e1: "emitted s1 = emitted s @ [ExecutionStart u ''http'',
               Escalation u ''http'' ''browser-light'' (escalationReason ?r)]"
    using assms(6,11) at1 n default_next_level(1)[OF assms(10)]
    by (simp add: run_pass_def emit_def Let_def)
  obtain s2 where p2: "run_pass cfg clock u exs opts ''browser-light'' 1 s1 =
       Done (Final \<lparr> result = r2, executionLevel = ''browser-light'', escalationCount = 1 \<rparr>) s2"
    and e2: "emitted s2 = emitted s1 @ [ExecutionStart u ''browser-light'']"
    using assms(7,8,9) by (simp add: run_pass_def emit_def Let_def)
  have len: "0 < length (levels cfg)" "1 < length (levels cfg)"
    using assms(10) by (simp_all add: default_levels_def)
  have "loop cfg clock u exs opts ''http'' 0 s = loop cfg clock u exs opts ''browser-light'' 1 s1"
    using p1 len by (subst loop.simps) simp
  also have "\<dots> = (Final \<lparr> result = r2, executionLevel = ''browser-light'',
                            escalationCount = 1 \<rparr>, s2)"
    using p2 len by (subst loop.simps) simp
  finally have run: "executeWithEscalation cfg clock u exs opts s =
      (Final \<lparr> result = r2, executionLevel = ''browser-light'', escalationCount = 1 \<rparr>, s2)"
    by (simp add: executeWithEscalation_def assms(12))
  have "new_events s s2 = [ExecutionStart u ''http'',
               Escalation u ''http'' ''browser-light'' (escalationReason ?r),
               ExecutionStart u ''browser-light'']"
    using e1 e2 by (simp add: new_events_def)
  then show ?thesis using f n w inc run by simp
qed

text \<open>
  The default handler and executor on a page that asks for JavaScript.
\<close>

theorem javascript_wall_escalates_to_browser_light_witness:
  "str_includes ''<html><body>Please enable JavaScript to continue</body></html>''
      ''Please enable JavaScript''
   \<and> escalationNeeded (fst (fetch default_http_config net_js_wall ''https://example.com''))
   \<and> \<not> escalationNeeded clean_result
   \<and> fst (executeWithEscalation (EscalationHandler None None) (\<lambda>k. 1000 * k)
          ''https://example.com'' js_wall_executors no_options initial_state) =
       Final \<lparr> result = clean_result, executionLevel = ''browser-light'', escalationCount = 1 \<rparr>"
proof -
  have 1: "0 \<le> retries default_http_config" by simp
  have 2: "\<forall>i<0. \<exists>m. net_js_wall i = Throws m \<and> \<not> shouldEscalate m" by simp
  have 3: "net_js_wall 0 = Returns js_wall" by (simp add: net_js_wall_def)
  have 4: "data js_wall =
      StrData ''<html><body>Please enable JavaScript to continue</body></html>''"
    by (simp add: js_wall_def)
  have 5: "str_includes ''<html><body>Please enable JavaScript to continue</body></html>''
      ''Please enable JavaScript''" by simp
  have 6: "js_wall_executors ''http'' = Some (HttpExecutor default_http_config net_js_wall)"
    by (simp add: js_wall_executors_def)
  have 7: "js_wall_executors ''browser-light'' = Some (always clean_result)"
    by (simp add: js_wall_executors_def)
  have 8: "executeAtLevel (always clean_result) ''https://example.com'' no_options =
      Returns clean_result" by (simp add: executeAtLevel_def always_def)
  have 9: "\<not> escalationNeeded clean_result" by (simp add: clean_result_def)
  have 10: "levels (EscalationHandler None None) = default_levels"
    by (simp add: EscalationHandler_def)
  have 11: "autoEscalate (EscalationHandler None None)" by (simp add: EscalationHandler_def)
  have 12: "start_level no_options = ''http''" by (simp add: start_level_def no_options_def)
  from javascript_wall_escalates_to_browser_light[OF 1 2 3 4 5 6 7 8 9 10 11 12,
      of initial_state "\<lambda>k. 1000 * k"]
  show ?thesis using 5 9 by simp
qed

text \<open>
  Claim C8 says that the result returned after the retry budget is exhausted signals
  escalation, and that an attempt that throws a blocking error makes \<open>fetch\<close> return
  with \<open>escalationNeeded = true\<close>. With the default budget, a request that times out on
  every attempt ends, after four attempts, in a result with \<open>escalationNeeded = false\<close>;
  so does a request whose fourth and last attempt throws an error containing \<open>403\<close>.
\<close>

theorem exhausted_retries_do_not_escalate_counterexample:
  "\<not> escalationNeeded (fst (fetch default_http_config net_timeouts ''https://example.com''))
   \<and> retryCount (fst (fetch default_http_config net_timeouts ''https://example.com'')) = 4
   \<and> str_includes ''Request failed with status code 403'' ''403''
   \<and> net_blocked_last 3 = Throws ''Request failed with status code 403''
   \<and> \<not> escalationNeeded
         (fst (fetch default_http_config net_blocked_last ''https://example.com''))"
  by code_simp

text \<open>
  Claim C8, amended. An attempt before the last one (\<open>attempt < retries\<close>) that throws
  an error whose message contains \<open>403\<close>, \<open>forbidden\<close>, \<open>blocked\<close> or
  \<open>challenge\<close> ends \<open>fetch\<close> at once with \<open>buildEscalationResult\<close>, whose
  \<open>escalationNeeded\<close> is true: only the waits of the earlier retries have happened.
  When every attempt throws an error that \<open>shouldEscalate\<close> rejects, \<open>retries + 1\<close>
  attempts are made, with \<open>retries\<close> waits, and the result is
  \<open>buildFailureResult\<close>, whose \<open>escalationNeeded\<close> is false.
\<close>

theorem fetch_error_policy:
  assumes "k < retries cfg" and "\<forall>i<k. \<exists>m. net i = Throws m \<and> \<not> shouldEscalate m"
    and "net k = Throws msg"
    and "str_includes msg ''403'' \<or> str_includes msg ''forbidden'' \<or>
         str_includes msg ''blocked'' \<or> str_includes msg ''challenge''"
    and "\<forall>i<retries cfg. \<exists>m. net' i = Throws m \<and> \<not> shouldEscalate m"
    and "net' (retries cfg) = Throws msg'" and "\<not> shouldEscalate msg'"
  shows "fetch cfg net u = (buildEscalationResult u (k + 1) msg, retry_delays cfg k)
       \<and> escalationNeeded (fst (fetch cfg net u))
       \<and> fetch cfg net' u =
           (buildFailureResult u (retries cfg + 1) (Some msg'), retry_delays cfg (retries cfg))
       \<and> \<not> escalationNeeded (fst (fetch cfg net' u))"
proof -
  have "shouldEscalate msg" using assms(4) by (rule shouldEscalate_contains)
  from fetch_blocked[OF assms(1,2,3) this] fetch_exhausted[OF assms(5,6)]
  show ?thesis by (simp add: buildEscalationResult_def buildFailureResult_def)
qed

text \<open>
  The default budget: a timeout followed by a 403 error, and four timeouts.
\<close>

theorem fetch_error_policy_witness:
  "fetch default_http_config net_blocked ''https://example.com'' =
     (buildEscalationResult ''https://example.com'' 2 ''Request failed with status code 403'',
      [1000])
   \<and> escalationNeeded (fst (fetch default_http_config net_blocked ''https://example.com''))
   \<and> fetch default_http_config net_timeouts ''https://example.com'' =
     (buildFailureResult ''https://example.com'' 4 (Some ''timeout of 30000ms exceeded''),
      [1000, 2000, 3000])
   \<and> \<not> escalationNeeded (fst (fetch default_http_config net_timeouts ''https://example.com''))"
proof -
  have t: "\<not> shouldEscalate ''timeout of 30000ms exceeded''"
    by code_simp
  have 1: "1 < retries default_http_config" by (simp add: default_http_config_def)
  have 2: "\<forall>i<1. \<exists>m. net_blocked i = Throws m \<and> \<not> shouldEscalate m"
    using t by (simp add: net_blocked_def)
  have 3: "net_blocked 1 = Throws ''Request failed with status code 403''"
    by (simp add: net_blocked_def)
  have 4: "str_includes ''Request failed with status code 403'' ''403'' \<or>
           str_includes ''Request failed with status code 403'' ''forbidden'' \<or>
           str_includes ''Request failed with status code 403'' ''blocked'' \<or>
           str_includes ''Request failed with status code 403'' ''challenge''" by simp
  have 5: "\<forall>i<retries default_http_config. \<exists>m. net_timeouts i = Throws m \<and> \<not> shouldEscalate m"
    using t by (simp add: net_timeouts_def)
  have 6: "net_timeouts (retries default_http_config) = Throws ''timeout of 30000ms exceeded''"
    by (simp add: net_timeouts_def)
  have r: "retry_delays default_http_config 1 = [1000]"
    "retry_delays default_http_config (retries default_http_config) = [1000, 2000, 3000]"
    "retries default_http_config + 1 = 4"
    by (simp_all add: retry_delays_def default_http_config_def upt_rec)
  from fetch_error_policy[OF 1 2 3 4 5 6 t, of "''https://example.com''"]
  show ?thesis unfolding r
    by (simp add: buildEscalationResult_def buildFailureResult_def numeral_2_eq_2)
qed

section \<open>Properties of the environment analyzer\<close>

text \<open>
  Each literal is a double, and the double nearest to the decimal number it is written as.
\<close>

lemma literals_are_nearest_doubles:
  "round_to_53_bits double_0_1 = double_0_1 \<and> \<bar>double_value double_0_1 - 1/10\<bar> < 1 / 2 ^ 57"
  "round_to_53_bits double_0_15 = double_0_15 \<and> \<bar>double_value double_0_15 - 15/100\<bar> < 1 / 2 ^ 56"
  "round_to_53_bits double_0_2 = double_0_2 \<and> \<bar>double_value double_0_2 - 2/10\<bar> < 1 / 2 ^ 56"
  "round_to_53_bits double_0_3 = double_0_3 \<and> \<bar>double_value double_0_3 - 3/10\<bar> < 1 / 2 ^ 55"
  "double_value double_1 = 1"
  by code_simp+

lemma analyzeHeaders_confidence:
  "confidence (analyzeHeaders hs sg) =
     foldl double_add (confidence sg)
       (pick (cloudflare_header hs) double_0_2 @ pick (service_header hs) double_0_3)"
  by (simp add: analyzeHeaders_def pick_def Let_def)

lemma analyzeHeaders_hasAntiBot:
  "hasAntiBot (analyzeHeaders hs sg) \<longleftrightarrow>
     hasAntiBot sg \<or> cloudflare_header hs \<or> service_header hs"
  by (simp add: analyzeHeaders_def Let_def)

lemma analyzeContent_confidence:
  "confidence (analyzeContent html sg) =
     foldl double_add (confidence sg)
       (pick (any_pattern jsFrameworkPatterns html) double_0_15
        @ pick (any_pattern antiBotPatterns html) double_0_2
        @ pick (any_pattern dynamicContentPatterns html) double_0_1
        @ pick (minimal_content html) double_0_3)"
  by (simp add: analyzeContent_def pick_def Let_def)

lemma analyzeContent_hasAntiBot:
  "hasAntiBot (analyzeContent html sg) \<longleftrightarrow> hasAntiBot sg \<or> any_pattern antiBotPatterns html"
  by (simp add: analyzeContent_def Let_def)

lemma analyze_confidence:
  "analysis_confidence (analyze u (Returns resp)) =
     min (double_sum (triggered_doubles resp)) double_1"
proof (cases "data resp")
  case (StrData html)
  then show ?thesis
    by (simp add: analyze_def Let_def triggered_doubles_def double_sum_def body_hit_def
        text_body_def analyzeHeaders_confidence analyzeContent_confidence initial_signals_def)
next
  case (OtherData j)
  then show ?thesis
    by (simp add: analyze_def Let_def triggered_doubles_def double_sum_def body_hit_def
        text_body_def analyzeHeaders_confidence initial_signals_def pick_def)
qed

lemma analyze_hasAntiBot:
  "hasAntiBot (analysis_signals (analyze u (Returns resp))) \<longleftrightarrow> has_protection_token resp"
  by (cases "data resp")
     (simp_all add: analyze_def Let_def has_protection_token_def body_hit_def text_body_def
        analyzeHeaders_hasAntiBot analyzeContent_hasAntiBot initial_signals_def)

lemma analyze_recommended:
  "recommendedExecution (analyze u (Returns resp)) =
     getRecommendedExecution (calculateComplexity (analysis_signals (analyze u (Returns resp))))
       (analysis_signals (analyze u (Returns resp)))"
  by (simp add: analyze_def Let_def)

text \<open>
  Whatever heuristics are triggered, the capped double sum is within \<open>2 ^ -52\<close> of the
  capped exact sum: all sixty-four cases, computed.
\<close>

lemma rounding_bound:
  "\<forall>cf sv fw ab dy mc.
     \<bar>double_value (min (double_sum (pick cf double_0_2 @ pick sv double_0_3 @ pick fw double_0_15
                    @ pick ab double_0_2 @ pick dy double_0_1 @ pick mc double_0_3)) double_1)
        - min (weight cf (2/10) + weight sv (3/10) + weight fw (15/100) + weight ab (2/10)
                 + weight dy (1/10) + weight mc (3/10)) 1\<bar> \<le> 1 / 2 ^ 52"
  unfolding all_bool_eq by code_simp

lemma confidence_near_sum:
  "\<bar>double_value (analysis_confidence (analyze u (Returns resp)))
     - min (triggered_increments resp) 1\<bar> \<le> 1 / 2 ^ 52"
  unfolding analyze_confidence triggered_doubles_def triggered_increments_def
  using rounding_bound by blast

text \<open>
  Claim C4 says that a response with a protection-service token in its body or headers gets
  the highest tier, with a confidence of at least the sum of the increments triggered. A
  response whose \<open>server\<close> header names Akamai, with a body that is not text, gets
  \<open>http\<close>: the headers are searched for three service names and two Cloudflare headers
  only. A response with a Cloudflare header and a service name in its headers, whose short
  body matches a framework, a protection and a lazy-loading pattern, triggers increments
  that sum to 1.25; the returned confidence is capped at 1. A response with a Cloudflare
  header and a short body that matches a framework pattern triggers 0.2, 0.15 and 0.3; their
  double sum, the returned confidence, is below 0.65.
\<close>

theorem confidence_is_clamped_counterexample:
  "names_protection_service akamai_api
   \<and> recommendedExecution (analyze ''https://example.com'' (Returns akamai_api)) = ''http''
   \<and> has_protection_token protected_page
   \<and> triggered_increments protected_page = 5/4
   \<and> double_value (analysis_confidence (analyze ''https://example.com'' (Returns protected_page))) = 1
   \<and> has_protection_token cloudflare_spa
   \<and> triggered_increments cloudflare_spa = 65/100
   \<and> double_value (analysis_confidence (analyze ''https://example.com'' (Returns cloudflare_spa)))
         < 65/100"
  by code_simp

text \<open>
  Claim C4, amended. For every fetched response with one of the tokens the analyzer looks
  for, in its headers or its text body, \<open>analyze\<close> recommends \<open>browser-advanced\<close>, the last
  of the levels. The confidence it returns is the double sum of the increments triggered,
  added in the order in which the heuristics run, capped at 1: it is at most 1 and within
  \<open>2 ^ -52\<close> of the exact sum capped at 1.
\<close>

theorem protection_token_recommends_top_tier:
  assumes "has_protection_token resp"
  shows "recommendedExecution (analyze u (Returns resp)) = ''browser-advanced''
       \<and> recommendedExecution (analyze u (Returns resp)) = last default_levels
       \<and> analysis_confidence (analyze u (Returns resp)) =
           min (double_sum (triggered_doubles resp)) double_1
       \<and> double_value (analysis_confidence (analyze u (Returns resp))) \<le> 1
       \<and> \<bar>double_value (analysis_confidence (analyze u (Returns resp)))
            - min (triggered_increments resp) 1\<bar> \<le> 1 / 2 ^ 52"
proof -
  have "hasAntiBot (analysis_signals (analyze u (Returns resp)))"
    using assms by (simp add: analyze_hasAntiBot)
  then have r: "recommendedExecution (analyze u (Returns resp)) = ''browser-advanced''"
    unfolding analyze_recommended
    by (simp add: calculateComplexity_def getRecommendedExecution_def)
  have "analysis_confidence (analyze u (Returns resp)) \<le> double_1"
    by (simp add: analyze_confidence)
  then have le: "double_value (analysis_confidence (analyze u (Returns resp))) \<le> 1"
    by (simp add: double_value_def double_1_def divide_le_eq)
  show ?thesis using r le confidence_near_sum[of u resp]
    by (simp add: analyze_confidence default_levels_def)
qed

text \<open>
  A response with a Cloudflare header only, whose single increment is the returned
  confidence, and the page whose increments sum to 1.25.
\<close>

theorem protection_token_recommends_top_tier_witness:
  "has_protection_token cloudflare_api
   \<and> recommendedExecution (analyze ''https://example.com'' (Returns cloudflare_api)) =
       ''browser-advanced''
   \<and> analysis_confidence (analyze ''https://example.com'' (Returns cloudflare_api)) = double_0_2
   \<and> has_protection_token protected_page
   \<and> recommendedExecution (analyze ''https://example.com'' (Returns protected_page)) =
       ''browser-advanced''
   \<and> analysis_confidence (analyze ''https://example.com'' (Returns protected_page)) = double_1"
proof -
  have 1: "has_protection_token cloudflare_api" by code_simp
  have 2: "min (double_sum (triggered_doubles cloudflare_api)) double_1 = double_0_2"
    by code_simp
  have 3: "has_protection_token protected_page" by code_simp
  have 4: "min (double_sum (triggered_doubles protected_page)) double_1 = double_1"
    by code_simp
  from protection_token_recommends_top_tier[OF 1, of "''https://example.com''"]
    protection_token_recommends_top_tier[OF 3, of "''https://example.com''"]
  show ?thesis using 1 3 unfolding 2 4 by simp
qed

section \<open>Properties of the drift detector\<close>

lemma selector_gone_inj: "selector_gone a = selector_gone b \<longleftrightarrow> a = b"
  by (simp add: selector_gone_def)

lemma structural_is_structure:
  "c \<in> set (structural_changes u now baseline entries) \<Longrightarrow>
     changeType c = ''structure'' \<and> change_severity c = ''warning''"
  by (induction u now baseline entries rule: structural_changes.induct) (auto split: if_splits)

lemma structural_absent:
  "selector \<notin> fst ` set entries \<Longrightarrow>
     structure_records_for selector (structural_changes u now baseline entries) = []"
  by (induction u now baseline entries rule: structural_changes.induct)
     (auto simp: structure_records_for_def selector_gone_inj)

lemma structural_for:
  "distinct (map fst entries) \<Longrightarrow> (selector, count) \<in> set entries \<Longrightarrow>
     structure_records_for selector (structural_changes u now baseline entries) =
       (if count = 0 \<and> baselineCount baseline selector > 0
        then [\<lparr> change_url = u, change_timestamp = now, changeType = ''structure'',
                change_severity = ''warning'', description = selector_gone selector,
                before = baselineCount baseline selector, after = 0 \<rparr>]
        else [])"
proof (induction u now baseline entries rule: structural_changes.induct)
  case (1 u now baseline)
  then show ?case by simp
next
  case (2 u now baseline sel cnt entries)
  show ?case
  proof (cases "sel = selector")
    case True
    with "2.prems" have "cnt = count" "selector \<notin> fst ` set entries"
      by (auto simp: image_iff)
    with True structural_absent[of selector entries u now baseline] show ?thesis
      by (auto simp: structure_records_for_def)
  next
    case False
    with "2.prems" have "(selector, count) \<in> set entries" "distinct (map fst entries)" by auto
    with "2.IH" False show ?thesis
      by (auto simp: structure_records_for_def selector_gone_inj)
  qed
qed

lemma performance_not_structure:
  "structure_records_for selector (performance_changes u now baseline current) = []"
  by (simp add: structure_records_for_def performance_changes_def)

lemma structure_records_for_append:
  "structure_records_for sel (a @ b) = structure_records_for sel a @ structure_records_for sel b"
  by (simp add: structure_records_for_def)

lemma structural_not_performance:
  "performance_records (structural_changes u now baseline entries) = []"
  by (induction u now baseline entries rule: structural_changes.induct)
     (auto simp: performance_records_def)

lemma structure_filter_changes:
  "filter (\<lambda>c. changeType c = ''structure'')
     (structural_changes u now baseline entries @ performance_changes u now baseline current) =
   structural_changes u now baseline entries"
proof -
  have "filter (\<lambda>c. changeType c = ''structure'') (structural_changes u now baseline entries) =
        structural_changes u now baseline entries"
    using structural_is_structure by (intro filter_True) blast
  moreover have "filter (\<lambda>c. changeType c = ''structure'')
        (performance_changes u now baseline current) = []"
    by (simp add: performance_changes_def)
  ultimately show ?thesis by simp
qed

lemma structural_changes_map:
  "structural_changes u now baseline entries =
     map (\<lambda>e. structure_record u now baseline (fst e)) (filter (vanished baseline) entries)"
  by (induction u now baseline entries rule: structural_changes.induct)
     (auto simp: vanished_def structure_record_def)

text \<open>
  Claim C6. With a stored baseline, every selector of the current check gets exactly one
  change record, of type \<open>structure\<close> and severity \<open>warning\<close>, when its count was
  positive in the baseline and is zero now, and none otherwise, in particular none when its
  count is positive now, whatever it was in the baseline. The structural records are the
  records of the entries that vanished, one each, in the order of the entries.
\<close>

theorem one_structural_record_per_vanished_selector:
  assumes "baselines s u = Some baseline" and "distinct (map fst (selectorMatches current))"
  shows "((selector, count) \<in> set (selectorMatches current) \<longrightarrow>
           structure_records_for selector (fst (detectChanges u current now s)) =
             (if count = 0 \<and> 0 < baselineCount baseline selector
              then [structure_record u now baseline selector] else []))
       \<and> filter (\<lambda>c. changeType c = ''structure'') (fst (detectChanges u current now s)) =
           map (\<lambda>e. structure_record u now baseline (fst e))
             (filter (vanished baseline) (selectorMatches current))"
proof -
  have d: "fst (detectChanges u current now s) =
      structural_changes u now baseline (selectorMatches current)
        @ performance_changes u now baseline current"
    using assms(1) by (simp add: detectChanges_def)
  show ?thesis
    unfolding d structure_filter_changes structure_records_for_append performance_not_structure
    using structural_for[OF assms(2), of selector count u now baseline]
    by (simp add: structural_changes_map structure_record_def)
qed

text \<open>
  A baseline with three \<open>.price\<close> and five \<open>.product\<close> matches. A check with none and
  two gives one record, for \<open>.price\<close>; a check in which both selectors match nothing
  gives two records.
\<close>

theorem one_structural_record_per_vanished_selector_witness:
  "baselines monitored ''https://example.com/pricing'' = Some baseline_check
   \<and> structure_records_for ''.price''
        (fst (detectChanges ''https://example.com/pricing'' later_check 3600000 monitored)) =
       [structure_record ''https://example.com/pricing'' 3600000 baseline_check ''.price'']
   \<and> structure_records_for ''.product''
        (fst (detectChanges ''https://example.com/pricing'' later_check 3600000 monitored)) = []
   \<and> filter (\<lambda>c. changeType c = ''structure'')
        (fst (detectChanges ''https://example.com/pricing'' all_gone_check 7200000 monitored)) =
       [structure_record ''https://example.com/pricing'' 7200000 baseline_check ''.price'',
        structure_record ''https://example.com/pricing'' 7200000 baseline_check ''.product'']"
proof -
  have 1: "baselines monitored ''https://example.com/pricing'' = Some baseline_check"
    by (simp add: monitored_def)
  have 2: "distinct (map fst (selectorMatches later_check))" by (simp add: later_check_def)
  have 3: "(''.price'', 0) \<in> set (selectorMatches later_check)" by (simp add: later_check_def)
  have 4: "0 < baselineCount baseline_check ''.price''"
    by (simp add: baselineCount_def baseline_check_def)
  have 5: "(''.product'', 2) \<in> set (selectorMatches later_check)" by (simp add: later_check_def)
  have 6: "distinct (map fst (selectorMatches all_gone_check))" by (simp add: all_gone_check_def)
  have 7: "(''.price'', 0) \<in> set (selectorMatches all_gone_check)"
    by (simp add: all_gone_check_def)
  have 8: "filter (vanished baseline_check) (selectorMatches all_gone_check) =
      [(''.price'', 0), (''.product'', 0)]"
    by (simp add: all_gone_check_def vanished_def baselineCount_def baseline_check_def)
  from one_structural_record_per_vanished_selector[OF 1 2, of "''.price''" 0 3600000]
    one_structural_record_per_vanished_selector[OF 1 2, of "''.product''" 2 3600000]
    one_structural_record_per_vanished_selector[OF 1 6, of "''.price''" 0 7200000]
  show ?thesis using 1 3 4 5 7 8 by simp
qed

text \<open>
  Claim C7 says that 250ms against a baseline of 100ms produces no performance record. The
  test is \<open>current.responseTime > baseline.responseTime * 2\<close>, and 250 exceeds 200: the
  record is produced.
\<close>

theorem performance_250_against_100_counterexample:
  "performance_records
     (fst (detectChanges ''https://example.com/pricing'' later_check 3600000 monitored)) =
   [\<lparr> change_url = ''https://example.com/pricing'', change_timestamp = 3600000,
      changeType = ''performance'', change_severity = ''warning'',
      description = ''Response time doubled'', before = 100, after = 250 \<rparr>]"
  by (simp add: detectChanges_def monitored_def later_check_def baseline_check_def
      performance_records_def performance_changes_def baselineCount_def)

text \<open>
  Claim C7, amended. With a stored baseline, one performance record is produced when the
  current response time is more than twice the baseline's, and none otherwise: 250ms against
  100ms produces the record, and 200ms against 100ms produces none.
\<close>

theorem performance_record_iff_more_than_double:
  assumes "baselines s u = Some baseline"
  shows "performance_records (fst (detectChanges u current now s)) =
           (if responseTime baseline * 2 < responseTime current
            then [\<lparr> change_url = u, change_timestamp = now, changeType = ''performance'',
                    change_severity = ''warning'', description = ''Response time doubled'',
                    before = responseTime baseline, after = responseTime current \<rparr>]
            else [])"
  using assms structural_not_performance[of u now baseline "selectorMatches current"]
  by (simp add: detectChanges_def performance_records_def performance_changes_def)

text \<open>The two response times of the amended claim, against the baseline of 100ms.\<close>

theorem performance_record_iff_more_than_double_witness:
  "baselines monitored ''https://example.com/pricing'' = Some baseline_check
   \<and> length (performance_records
        (fst (detectChanges ''https://example.com/pricing'' later_check 3600000 monitored))) = 1
   \<and> performance_records
        (fst (detectChanges ''https://example.com/pricing'' (later_check\<lparr>responseTime := 200\<rparr>)
           3600000 monitored)) = []"
proof -
  have 1: "baselines monitored ''https://example.com/pricing'' = Some baseline_check"
    by (simp add: monitored_def)
  from performance_record_iff_more_than_double[OF 1, of later_check 3600000]
    performance_record_iff_more_than_double[OF 1, of "later_check\<lparr>responseTime := 200\<rparr>" 3600000]
  show ?thesis using 1 by (simp add: later_check_def baseline_check_def)
qed

section \<open>Properties of the alerting system\<close>

lemma deliver_each_facts:
  "deliver_each cs a s = (a', s') \<Longrightarrow>
     alert_rule a' = alert_rule a \<and> alert_id a' = alert_id a
     \<and> alertHistory s' = alertHistory s \<and> lastAlerts s' = lastAlerts s
     \<and> alertCounter s' = alertCounter s \<and> alerts_emitted s' = alerts_emitted s
     \<and> sent s' = sent s @ map (\<lambda>c. (c, alert_rule a, alert_id a)) (filter known_channel cs)"
  by (induction cs a s rule: deliver_each.induct) (auto split: if_splits)

lemma createAndSendAlert_facts:
  assumes "createAndSendAlert now r ev s = (a, s')"
  shows "alert_rule a = name r" and "alert_timestamp a = now"
    and "alertHistory s' = alertHistory s @ [a]"
    and "alerts_emitted s' = alerts_emitted s @ [a]"
    and "lastAlerts s' = lastAlerts s"
    and "sent s' = sent s @ map (\<lambda>c. (c, name r, alert_id a)) (filter known_channel (channels r))"
proof -
  let ?a0 = "\<lparr> alert_id = ''alert_'' @ decimal (alertCounter s + 1) @ ''_'' @ decimal now,
                 alert_rule = name r, alert_severity = severity r, alert_timestamp = now,
                 alert_message = (case message r of Some f \<Rightarrow> f ev
                                  | None \<Rightarrow> generateDefaultMessage r ev),
                 alert_channels = channels r, alert_event = ev,
                 delivered = False, deliveryResults = Map.empty \<rparr>"
  obtain a1 s1 where d: "deliver_each (channels r) ?a0 (s\<lparr>alertCounter := alertCounter s + 1\<rparr>) = (a1, s1)"
    by (cases "deliver_each (channels r) ?a0 (s\<lparr>alertCounter := alertCounter s + 1\<rparr>)")
  from deliver_each_facts[OF d] have f:
    "alert_rule a1 = name r" "alert_id a1 = alert_id ?a0"
    "alertHistory s1 = alertHistory s" "lastAlerts s1 = lastAlerts s"
    "alerts_emitted s1 = alerts_emitted s"
    "sent s1 = sent s @ map (\<lambda>c. (c, name r, alert_id ?a0)) (filter known_channel (channels r))"
    by simp_all
  have ts: "alert_timestamp a1 = now"
    using d
  proof -
    have "\<And>cs b t b' t'. deliver_each cs b t = (b', t') \<Longrightarrow> alert_timestamp b' = alert_timestamp b"
      subgoal for cs b t b' t'
        by (induction cs b t rule: deliver_each.induct) (auto split: if_splits)
      done
    from this[OF d] show ?thesis by simp
  qed
  from assms d have a: "a = a1\<lparr>delivered := list_ex (\<lambda>c. deliveryResults a1 c = Some True) (channels r)\<rparr>"
    and s': "s' = s1\<lparr>alertHistory := alertHistory s1 @ [a], alerts_emitted := alerts_emitted s1 @ [a]\<rparr>"
    by (auto simp: createAndSendAlert_def begin_alert_def finish_alert_def deliverAlert_def Let_def)
  show "alert_rule a = name r" using a f by simp
  show "alert_timestamp a = now" using a ts by simp
  show "alertHistory s' = alertHistory s @ [a]" using s' f by simp
  show "alerts_emitted s' = alerts_emitted s @ [a]" using s' f by simp
  show "lastAlerts s' = lastAlerts s" using s' f by simp
  show "sent s' = sent s @ map (\<lambda>c. (c, name r, alert_id a)) (filter known_channel (channels r))"
    using s' f a by simp
qed

lemma begin_alert_facts:
  assumes "begin_alert now r ev s = (a, s')"
  shows "alert_rule a = name r" and "alert_timestamp a = now"
    and "alertHistory s' = alertHistory s" and "lastAlerts s' = lastAlerts s"
proof -
  obtain a' s'' where c: "createAndSendAlert now r ev s = (a', s'')"
    by (cases "createAndSendAlert now r ev s")
  with assms have e: "a' = a" "s'' = finish_alert a s'"
    by (auto simp: createAndSendAlert_def)
  note f = createAndSendAlert_facts[OF c]
  show "alert_rule a = name r" using f(1) e by simp
  show "alert_timestamp a = now" using f(2) e by simp
  show "alertHistory s' = alertHistory s" using f(3) e by (simp add: finish_alert_def)
  show "lastAlerts s' = lastAlerts s" using f(5) e by (simp add: finish_alert_def)
qed

text \<open>Rules of another name leave the alerts, the sender calls and the throttle of \<open>n\<close> alone.\<close>

lemma process_rules_other:
  assumes "\<forall>x\<in>set rs. name x \<noteq> n" "process_rules cfg now ev rs acc s = (acc', s')"
  shows "alerts_of n acc' = alerts_of n acc \<and> alerts_of n (alertHistory s') = alerts_of n (alertHistory s)
       \<and> alerts_of n (alerts_emitted s') = alerts_of n (alerts_emitted s)
       \<and> sent_for n s' = sent_for n s \<and> lastAlerts s' n = lastAlerts s n"
  using assms
proof (induction cfg now ev rs acc s rule: process_rules.induct)
  case (1 cfg now ev alerts s)
  then show ?case by simp
next
  case (2 cfg now ev r rs alerts s)
  show ?case
  proof (cases "\<not> condition r ev \<or> isThrottled cfg now r s")
    case True
    with "2.prems" "2.IH"(1,2) show ?thesis by (auto split: if_splits)
  next
    case False
    obtain a s1 where c: "createAndSendAlert now r ev s = (a, s1)"
      by (cases "createAndSendAlert now r ev s")
    let ?s2 = "s1\<lparr>lastAlerts := (lastAlerts s1)(name r \<mapsto> now)\<rparr>"
    from False c "2.prems"(2) have run: "process_rules cfg now ev rs (alerts @ [a]) ?s2 = (acc', s')"
      by simp
    from "2.prems"(1) have nr: "name r \<noteq> n" and rest: "\<forall>x\<in>set rs. name x \<noteq> n" by auto
    from False have f1: "\<not> \<not> condition r ev" and f2: "\<not> isThrottled cfg now r s" by auto
    note ih = "2.IH"(3)[OF f1 f2 c[symmetric] refl refl rest run]
    note cf = createAndSendAlert_facts[OF c]
    show ?thesis using ih cf nr by (simp add: alerts_of_def sent_for_def)
  qed
qed

lemma process_rules_append:
  "process_rules cfg now ev (xs @ ys) acc s =
     (let (acc1, s1) = process_rules cfg now ev xs acc s in process_rules cfg now ev ys acc1 s1)"
  by (induction cfg now ev xs acc s rule: process_rules.induct) (auto simp: Let_def split: prod.splits)

text \<open>
  A call that is resumed before anything else runs does what \<open>process_rules\<close> does.
\<close>

lemma process_rules_scan:
  "process_rules cfg now ev rs acc s =
     (case scan_rules cfg now ev rs acc s of
        (Resolved bs, s') \<Rightarrow> (bs, s')
      | (Awaiting e r a rs' bs, s') \<Rightarrow>
          process_rules cfg now e rs' (bs @ [a])
            ((finish_alert a s')\<lparr>lastAlerts := (lastAlerts (finish_alert a s'))(name r \<mapsto> now)\<rparr>))"
  by (induction cfg now ev rs acc s rule: process_rules.induct)
     (auto simp: createAndSendAlert_def Let_def split: prod.splits)

lemma isThrottled_cong:
  "lastAlerts s (name r) = lastAlerts t (name r) \<Longrightarrow> isThrottled cfg now r s = isThrottled cfg now r t"
  by (simp add: isThrottled_def)

lemma process_rules_unique:
  assumes uniq: "filter (\<lambda>x. name x = name r) rs = [r]" and c: "condition r ev"
    and run: "process_rules cfg now ev rs acc s = (acc', s')"
  shows "isThrottled cfg now r s \<Longrightarrow>
           alerts_of (name r) acc' = alerts_of (name r) acc
         \<and> alerts_of (name r) (alertHistory s') = alerts_of (name r) (alertHistory s)
         \<and> alerts_of (name r) (alerts_emitted s') = alerts_of (name r) (alerts_emitted s)
         \<and> sent_for (name r) s' = sent_for (name r) s
         \<and> lastAlerts s' (name r) = lastAlerts s (name r)"
    and "\<not> isThrottled cfg now r s \<Longrightarrow>
           \<exists>a. alert_rule a = name r \<and> alert_timestamp a = now
             \<and> alerts_of (name r) acc' = alerts_of (name r) acc @ [a]
             \<and> alerts_of (name r) (alertHistory s') = alerts_of (name r) (alertHistory s) @ [a]
             \<and> alerts_of (name r) (alerts_emitted s') = alerts_of (name r) (alerts_emitted s) @ [a]
             \<and> sent_for (name r) s' = sent_for (name r) s
                  @ map (\<lambda>c. (c, name r, alert_id a)) (filter known_channel (channels r))
             \<and> lastAlerts s' (name r) = Some now"
proof -
  let ?n = "name r"
  from uniq obtain pre post where rs: "rs = pre @ r # post"
    and pre: "\<forall>x\<in>set pre. name x \<noteq> ?n" and post0: "filter (\<lambda>x. name x = ?n) post = []"
    by (auto simp: filter_eq_Cons_iff)
  from post0 have post: "\<forall>x\<in>set post. name x \<noteq> ?n" by (simp add: filter_empty_conv)
  obtain acc1 s1 where r1: "process_rules cfg now ev pre acc s = (acc1, s1)"
    by (cases "process_rules cfg now ev pre acc s")
  note o1 = process_rules_other[OF pre r1]
  have thr: "isThrottled cfg now r s1 = isThrottled cfg now r s"
    using o1 by (intro isThrottled_cong) simp
  from run rs r1 have r2: "process_rules cfg now ev (r # post) acc1 s1 = (acc', s')"
    by (simp add: process_rules_append)
  {
    assume t: "isThrottled cfg now r s"
    with r2 c thr have "process_rules cfg now ev post acc1 s1 = (acc', s')" by simp
    from process_rules_other[OF post this] o1
    show "alerts_of ?n acc' = alerts_of ?n acc
         \<and> alerts_of ?n (alertHistory s') = alerts_of ?n (alertHistory s)
         \<and> alerts_of ?n (alerts_emitted s') = alerts_of ?n (alerts_emitted s)
         \<and> sent_for ?n s' = sent_for ?n s
         \<and> lastAlerts s' ?n = lastAlerts s ?n" by simp
  }
  {
    assume t: "\<not> isThrottled cfg now r s"
    obtain a s2 where cs: "createAndSendAlert now r ev s1 = (a, s2)"
      by (cases "createAndSendAlert now r ev s1")
    let ?s3 = "s2\<lparr>lastAlerts := (lastAlerts s2)(?n \<mapsto> now)\<rparr>"
    from r2 c thr t cs have r3: "process_rules cfg now ev post (acc1 @ [a]) ?s3 = (acc', s')"
      by simp
    note cf = createAndSendAlert_facts[OF cs]
    note o3 = process_rules_other[OF post r3]
    have "alert_rule a = ?n \<and> alert_timestamp a = now
             \<and> alerts_of ?n acc' = alerts_of ?n acc @ [a]
             \<and> alerts_of ?n (alertHistory s') = alerts_of ?n (alertHistory s) @ [a]
             \<and> alerts_of ?n (alerts_emitted s') = alerts_of ?n (alerts_emitted s) @ [a]
             \<and> sent_for ?n s' = sent_for ?n s
                  @ map (\<lambda>c. (c, ?n, alert_id a)) (filter known_channel (channels r))
             \<and> lastAlerts s' ?n = Some now"
      using o1 o3 cf by (simp add: alerts_of_def sent_for_def filter_map comp_def)
    then show "\<exists>a. alert_rule a = ?n \<and> alert_timestamp a = now
             \<and> alerts_of ?n acc' = alerts_of ?n acc @ [a]
             \<and> alerts_of ?n (alertHistory s') = alerts_of ?n (alertHistory s) @ [a]
             \<and> alerts_of ?n (alerts_emitted s') = alerts_of ?n (alerts_emitted s) @ [a]
             \<and> sent_for ?n s' = sent_for ?n s
                  @ map (\<lambda>c. (c, ?n, alert_id a)) (filter known_channel (channels r))
             \<and> lastAlerts s' ?n = Some now" by blast
  }
qed

lemma isThrottled_after:
  "lastAlerts s (name r) = Some t1 \<Longrightarrow>
     isThrottled cfg t2 r s \<longleftrightarrow> int t2 - int t1 < int (throttleMs cfg r)"
  by (simp add: isThrottled_def)

text \<open>
  Calls of \<open>processEvent\<close> that do not overlap, each one settled before the next
  starts. For a rule whose name no other configured rule has and that is not throttled when
  the first matching event arrives at \<open>t1\<close>: that event produces exactly one alert of the
  rule, delivered on its known channels and appended to the history; a matching event at
  \<open>t2\<close>, less than the throttle window after \<open>t1\<close>, produces no alert, no sender call,
  no \<open>alert\<close> event and no history entry, and leaves the throttle time at \<open>t1\<close>; a
  matching event at \<open>t3\<close>, when the window has elapsed since \<open>t1\<close>, produces the
  second alert.
\<close>

theorem throttled_rule_fires_once_per_window:
  assumes "filter (\<lambda>x. name x = name r) (rules cfg) = [r]"
    and "condition r e1" and "condition r e2" and "condition r e3"
    and "\<not> isThrottled cfg t1 r s0"
    and "int t2 - int t1 < int (throttleMs cfg r)"
    and "int (throttleMs cfg r) \<le> int t3 - int t1"
    and "processEvent cfg t1 e1 s0 = (as1, s1)"
    and "processEvent cfg t2 e2 s1 = (as2, s2)"
    and "processEvent cfg t3 e3 s2 = (as3, s3)"
  shows "\<exists>x y. alert_rule x = name r \<and> alert_timestamp x = t1
           \<and> alert_rule y = name r \<and> alert_timestamp y = t3
           \<and> alerts_of (name r) as1 = [x]
           \<and> alerts_of (name r) (alertHistory s1) = alerts_of (name r) (alertHistory s0) @ [x]
           \<and> sent_for (name r) s1 = sent_for (name r) s0
                @ map (\<lambda>c. (c, name r, alert_id x)) (filter known_channel (channels r))
           \<and> alerts_of (name r) as2 = []
           \<and> alerts_of (name r) (alertHistory s2) = alerts_of (name r) (alertHistory s0) @ [x]
           \<and> alerts_of (name r) (alerts_emitted s2) = alerts_of (name r) (alerts_emitted s1)
           \<and> sent_for (name r) s2 = sent_for (name r) s1
           \<and> lastAlerts s2 (name r) = Some t1
           \<and> alerts_of (name r) as3 = [y]
           \<and> alerts_of (name r) (alertHistory s3) = alerts_of (name r) (alertHistory s0) @ [x, y]"
proof -
  let ?n = "name r"
  note u = assms(1)
  from process_rules_unique(2)[OF u assms(2) assms(8)[unfolded processEvent_def] assms(5)]
  obtain x where x: "alert_rule x = ?n" "alert_timestamp x = t1"
    "alerts_of ?n as1 = [x]"
    "alerts_of ?n (alertHistory s1) = alerts_of ?n (alertHistory s0) @ [x]"
    "sent_for ?n s1 = sent_for ?n s0
        @ map (\<lambda>c. (c, ?n, alert_id x)) (filter known_channel (channels r))"
    "lastAlerts s1 ?n = Some t1"
    by (auto simp: alerts_of_def)
  have th2: "isThrottled cfg t2 r s1" using isThrottled_after[OF x(6)] assms(6) by simp
  from process_rules_unique(1)[OF u assms(3) assms(9)[unfolded processEvent_def] th2]
  have s2: "alerts_of ?n as2 = []"
    "alerts_of ?n (alertHistory s2) = alerts_of ?n (alertHistory s1)"
    "alerts_of ?n (alerts_emitted s2) = alerts_of ?n (alerts_emitted s1)"
    "sent_for ?n s2 = sent_for ?n s1" "lastAlerts s2 ?n = Some t1"
    using x(6) by (auto simp: alerts_of_def)
  have th3: "\<not> isThrottled cfg t3 r s2" using isThrottled_after[OF s2(5)] assms(7) by simp
  from process_rules_unique(2)[OF u assms(4) assms(10)[unfolded processEvent_def] th3]
  obtain y where y: "alert_rule y = ?n" "alert_timestamp y = t3"
    "alerts_of ?n as3 = [y]"
    "alerts_of ?n (alertHistory s3) = alerts_of ?n (alertHistory s2) @ [y]"
    by (auto simp: alerts_of_def)
  show ?thesis
    using x s2 y by (intro exI[of _ x] exI[of _ y]) simp
qed

text \<open>
  The \<open>Structure Change\<close> rule, which has no throttle of its own, under the default
  window of five minutes: events at 0, at one minute and at five minutes.
\<close>

theorem throttled_rule_fires_once_per_window_witness:
  "\<not> isThrottled example_alerting 0 structure_change_rule initial_alerting
   \<and> throttleMs example_alerting structure_change_rule = 300000
   \<and> length (alerts_of ''Structure Change'' (alertHistory
        (snd (processEvent example_alerting 60000 price_gone
          (snd (processEvent example_alerting 0 price_gone initial_alerting)))))) = 1
   \<and> length (alerts_of ''Structure Change'' (alertHistory
        (snd (processEvent example_alerting 300000 price_gone
          (snd (processEvent example_alerting 60000 price_gone
            (snd (processEvent example_alerting 0 price_gone initial_alerting)))))))) = 2"
proof -
  let ?cfg = example_alerting and ?r = structure_change_rule
  let ?p1 = "processEvent ?cfg 0 price_gone initial_alerting"
  let ?p2 = "processEvent ?cfg 60000 price_gone (snd ?p1)"
  let ?p3 = "processEvent ?cfg 300000 price_gone (snd ?p2)"
  have n: "name ?r = ''Structure Change''" by (simp add: structure_change_rule_def)
  have n': "name performance_degradation_rule = ''Performance Degradation''"
    by (simp add: performance_degradation_rule_def)
  have rs: "rules ?cfg = [?r, performance_degradation_rule]"
    by (simp add: example_alerting_def AlertingSystem_def)
  have 1: "filter (\<lambda>x. name x = name ?r) (rules ?cfg) = [?r]"
    unfolding rs by (simp add: n n')
  have 2: "condition ?r price_gone"
    by (simp add: structure_change_rule_def price_gone_def)
  have 3: "\<not> isThrottled ?cfg 0 ?r initial_alerting"
    by (simp add: isThrottled_def initial_alerting_def)
  have w: "throttleMs ?cfg ?r = 300000"
    by (simp add: throttleMs_def example_alerting_def AlertingSystem_def structure_change_rule_def)
  have 4: "int 60000 - int 0 < int (throttleMs ?cfg ?r)" unfolding w by simp
  have 5: "int (throttleMs ?cfg ?r) \<le> int 300000 - int 0" unfolding w by simp
  have h0: "alertHistory initial_alerting = []" by (simp add: initial_alerting_def)
  from throttled_rule_fires_once_per_window[OF 1 2 2 2 3 4 5,
      of "fst ?p1" "snd ?p1" "fst ?p2" "snd ?p2" "fst ?p3" "snd ?p3"]
  show ?thesis using 3 w unfolding n h0 by (auto simp: alerts_of_def)
qed

text \<open>
  Claim C5 says that two events matching a rule less than its throttle window apart produce
  exactly one alert. \<open>lastAlerts\<close> is set only after
  \<open>await this.createAndSendAlert(...)\<close>, so a call that starts while another is suspended
  there passes the throttle check as well. Two structure changes found by one check and
  passed to \<open>processEvent\<close> in the same turn both produce an alert of the
  \<open>Structure Change\<close> rule, at the same time, under a window of five minutes.
\<close>

theorem overlapping_calls_alert_twice:
  "map (\<lambda>a. (alert_rule a, alert_timestamp a))
     (alertHistory (overlapping_calls example_alerting 0 price_gone product_gone initial_alerting)) =
   [(''Structure Change'', 0), (''Structure Change'', 0)]
   \<and> throttleMs example_alerting structure_change_rule = 300000"
proof -
  let ?cfg = example_alerting and ?r = structure_change_rule and ?p = performance_degradation_rule
  have n: "name ?r = ''Structure Change''" by (simp add: structure_change_rule_def)
  have rs: "rules ?cfg = [?r, ?p]" by (simp add: example_alerting_def AlertingSystem_def)
  have c1: "condition ?r price_gone" "condition ?r product_gone"
    by (simp_all add: structure_change_rule_def price_gone_def product_gone_def)
  have c2: "\<not> condition ?p price_gone" "\<not> condition ?p product_gone"
    by (simp_all add: performance_degradation_rule_def price_gone_def product_gone_def)
  have w: "throttleMs ?cfg ?r = 300000"
    by (simp add: throttleMs_def example_alerting_def AlertingSystem_def structure_change_rule_def)
  obtain a1 s1 where b1: "begin_alert 0 ?r price_gone initial_alerting = (a1, s1)"
    by (cases "begin_alert 0 ?r price_gone initial_alerting")
  obtain a2 s2 where b2: "begin_alert 0 ?r product_gone s1 = (a2, s2)"
    by (cases "begin_alert 0 ?r product_gone s1")
  note f1 = begin_alert_facts[OF b1] and f2 = begin_alert_facts[OF b2]
  have t0: "\<not> isThrottled ?cfg 0 ?r initial_alerting"
    by (simp add: isThrottled_def initial_alerting_def)
  have t1: "\<not> isThrottled ?cfg 0 ?r s1"
    using f1(4) by (simp add: isThrottled_def initial_alerting_def)
  have st1: "start_processEvent ?cfg 0 price_gone initial_alerting =
      (Awaiting price_gone ?r a1 [?p] [], s1)"
    using c1 t0 b1 by (simp add: start_processEvent_def rs)
  have st2: "start_processEvent ?cfg 0 product_gone s1 =
      (Awaiting product_gone ?r a2 [?p] [], s2)"
    using c1 t1 b2 by (simp add: start_processEvent_def rs)
  let ?s3 = "(finish_alert a1 s2)\<lparr>lastAlerts := (lastAlerts (finish_alert a1 s2))(name ?r \<mapsto> 0)\<rparr>"
  have r1: "resume ?cfg 0 (Awaiting price_gone ?r a1 [?p] []) s2 = (Resolved [a1], ?s3)"
    using c2 by (simp add: Let_def)
  let ?s4 = "(finish_alert a2 ?s3)\<lparr>lastAlerts := (lastAlerts (finish_alert a2 ?s3))(name ?r \<mapsto> 0)\<rparr>"
  have r2: "resume ?cfg 0 (Awaiting product_gone ?r a2 [?p] []) ?s3 = (Resolved [a2], ?s4)"
    using c2 by (simp add: Let_def)
  have "overlapping_calls ?cfg 0 price_gone product_gone initial_alerting = ?s4"
    by (simp only: overlapping_calls_def st1 st2 r1 r2 Let_def prod.case)
  moreover have "alertHistory ?s4 = [a1, a2]"
    using f1(3) f2(3) by (simp add: finish_alert_def initial_alerting_def)
  ultimately show ?thesis using f1(1,2) f2(1,2) n w by simp
qed

end
